theory Spec2Isabelle
  imports Complex_Main "HOL-Library.Log_Nat" "HOL-Library.Multiset"
begin

text \<open>
  The price series, the chunked consumption requests of the client and the update cycle of
  the device of the Ostrom app, as functions over lists, with the instants, the numbers and
  the array operations of the runtime they are written in. Each method keeps its name. A
  method that can throw returns a sum, with the error on the left.
\<close>

section \<open>Numbers\<close>

text \<open>
  A TypeScript \<^verbatim>\<open>number\<close> is an IEEE-754 binary64 value. A finite one is modelled by
  the rational it denotes, and every arithmetic operation of the source is the exact
  operation followed by \<open>fl\<close>, rounding to the nearest value with a 53-bit significand,
  ties to the even significand. The exponent range is not bounded: overflow to
  \<^verbatim>\<open>Infinity\<close> and the subnormal range lie far from any price or meter reading, and
  \<^verbatim>\<open>NaN\<close> does not arise from the operations used on finite values.
\<close>

type_synonym number = rat

definition ilog2 :: "rat \<Rightarrow> int" where
  "ilog2 x = (case quotient_of x of (a, b) \<Rightarrow>
     (let k = bitlen a - bitlen b in if 2 powi k \<le> x then k else k - 1))"

definition round_half_even :: "rat \<Rightarrow> int" where
  "round_half_even q = (let f = \<lfloor>q\<rfloor>; d = q - of_int f in
     if d < 1 / 2 then f else if 1 / 2 < d then f + 1 else if even f then f else f + 1)"

definition fl :: "rat \<Rightarrow> number" where
  "fl x = (if x = 0 then 0 else
     (let e = ilog2 \<bar>x\<bar> - 52 in sgn x * of_int (round_half_even (\<bar>x\<bar> / 2 powi e)) * 2 powi e))"

section \<open>Instants\<close>

text \<open>
  A luxon \<^verbatim>\<open>DateTime\<close> is modelled by its epoch milliseconds (what \<^verbatim>\<open>toMillis()\<close> and
  the comparison operators read), in a zone of fixed offset zero, so that hours and days
  start at multiples of their length. \<^verbatim>\<open>DateTime.fromISO(s)\<close> of a date string is taken
  as parsed: the records below hold the instant the string denotes.
\<close>

type_synonym DateTime = int

definition startOfHour :: "DateTime \<Rightarrow> DateTime" where
  "startOfHour t = t - t mod 3600000"

definition startOfDay :: "DateTime \<Rightarrow> DateTime" where
  "startOfDay t = t - t mod 86400000"

definition plusHours :: "int \<Rightarrow> DateTime \<Rightarrow> DateTime" where
  "plusHours n t = t + n * 3600000"

definition plusDays :: "int \<Rightarrow> DateTime \<Rightarrow> DateTime" where
  "plusDays n t = t + n * 86400000"

definition hour :: "DateTime \<Rightarrow> int" where
  "hour t = (t div 3600000) mod 24"

definition minute :: "DateTime \<Rightarrow> int" where
  "minute t = (t div 60000) mod 60"

section \<open>Data\<close>

datatype error = Error string

record Price =
  date :: DateTime
  netPrice :: number

record Consumption =
  date :: DateTime
  kWh :: number

section \<open>Array operations of the runtime\<close>

text \<open>\<^verbatim>\<open>Array.prototype.findIndex\<close>: the first index whose element satisfies the predicate, or -1.\<close>

fun findIndex :: "('a \<Rightarrow> bool) \<Rightarrow> 'a list \<Rightarrow> int" where
  "findIndex p [] = - 1"
| "findIndex p (x # xs) =
     (if p x then 0 else (let i = findIndex p xs in if i = - 1 then - 1 else i + 1))"

text \<open>
  \<^verbatim>\<open>Array.prototype.slice(start, end)\<close>: a negative bound counts from the end, both bounds
  are clamped to the length, and an end at or before the start gives the empty array.
\<close>

definition slice :: "'a list \<Rightarrow> int \<Rightarrow> int \<Rightarrow> 'a list" where
  "slice xs start end' =
     (let len = int (length xs);
          k = (if start < 0 then max (len + start) 0 else min start len);
          final = (if end' < 0 then max (len + end') 0 else min end' len)
      in take (nat (max (final - k) 0)) (drop (nat k) xs))"

text \<open>
  \<^verbatim>\<open>Array.prototype.sort(cmp)\<close> is a stable sort: an element goes before another when the
  comparator is negative, and elements that compare equal keep their order. It is modelled
  by stable insertion of each element, the last one first, in front of the first element it
  does not compare greater than.
\<close>

fun insertBy :: "('a \<Rightarrow> 'a \<Rightarrow> number) \<Rightarrow> 'a \<Rightarrow> 'a list \<Rightarrow> 'a list" where
  "insertBy cmp x [] = [x]"
| "insertBy cmp x (y # ys) = (if cmp x y \<le> 0 then x # y # ys else y # insertBy cmp x ys)"

definition sortBy :: "('a \<Rightarrow> 'a \<Rightarrow> number) \<Rightarrow> 'a list \<Rightarrow> 'a list" where
  "sortBy cmp xs = foldr (insertBy cmp) xs []"

text \<open>
  \<^verbatim>\<open>Math.min(...xs)\<close> and \<^verbatim>\<open>Math.max(...xs)\<close>: the least and the greatest argument, and
  \<^verbatim>\<open>Infinity\<close> and \<^verbatim>\<open>-Infinity\<close> when there is none.
\<close>

datatype extremum = Num number | PosInfinity | NegInfinity

fun Math_min :: "number list \<Rightarrow> extremum" where
  "Math_min [] = PosInfinity"
| "Math_min (x # xs) = Num (fold min xs x)"

fun Math_max :: "number list \<Rightarrow> extremum" where
  "Math_max [] = NegInfinity"
| "Math_max (x # xs) = Num (fold max xs x)"

section \<open>The price series (lib/Prices.ts)\<close>

text \<open>
  The three private cache fields start as \<^verbatim>\<open>null\<close> (\<open>None\<close>). A getter that fills its
  cache returns the series with the cache filled next to its value.
\<close>

record Prices =
  prices :: "Price list"
  values_arr :: "number list"
  cache_lowest :: "extremum option"
  cache_highest :: "extremum option"
  cache_average :: "number option"

definition new_Prices :: "Price list \<Rightarrow> error + Prices" where
  "new_Prices ps =
     (if length ps = 0 then Inl (Error ''Prices constructor requires a non-empty array'')
      else Inr \<lparr>prices = ps, values_arr = map netPrice ps,
                cache_lowest = None, cache_highest = None, cache_average = None\<rparr>)"

definition getPricesForNextNHours :: "Prices \<Rightarrow> DateTime \<Rightarrow> int \<Rightarrow> error + Prices" where
  "getPricesForNextNHours P time hours =
     (let hour = startOfHour time;
          index = findIndex (\<lambda>price. Price.date price = hour) (prices P)
      in if index = - 1 then Inl (Error ''Could not find price for the given time.'')
         else new_Prices (slice (prices P) index hours))"

definition getNLowest :: "Prices \<Rightarrow> int \<Rightarrow> error + Prices" where
  "getNLowest P n =
     (let sorted = sortBy (\<lambda>a b. fl (netPrice a - netPrice b)) (prices P)
      in new_Prices (slice sorted 0 n))"

definition getNHighest :: "Prices \<Rightarrow> int \<Rightarrow> error + Prices" where
  "getNHighest P n =
     (let sorted = sortBy (\<lambda>a b. fl (netPrice b - netPrice a)) (prices P)
      in new_Prices (slice sorted 0 n))"

definition getPriceAtInstant :: "Prices \<Rightarrow> DateTime \<Rightarrow> Price option" where
  "getPriceAtInstant P time =
     (let hour = startOfHour time in find (\<lambda>price. Price.date price = hour) (prices P))"


definition getLowest :: "Prices \<Rightarrow> extremum \<times> Prices" where
  "getLowest P =
     (case cache_lowest P of
        None \<Rightarrow> (let l = Math_min (values_arr P) in (l, P\<lparr>cache_lowest := Some l\<rparr>))
      | Some l \<Rightarrow> (l, P))"

definition getHighest :: "Prices \<Rightarrow> extremum \<times> Prices" where
  "getHighest P =
     (case cache_highest P of
        None \<Rightarrow> (let h = Math_max (values_arr P) in (h, P\<lparr>cache_highest := Some h\<rparr>))
      | Some h \<Rightarrow> (h, P))"

definition getValues :: "Prices \<Rightarrow> number list" where
  "getValues P = values_arr P"

text \<open>
  \<^verbatim>\<open>getPricesBetweenTimes\<close> takes its two arguments as \<^verbatim>\<open>parseTime\<close> leaves them: the
  numbers before and after the colon of \<^verbatim>\<open>"HH:MM"\<close>.
\<close>

record TimeOfDay =
  hours :: int
  minutes :: int

definition withinTimes :: "TimeOfDay \<Rightarrow> TimeOfDay \<Rightarrow> Price \<Rightarrow> bool" where
  "withinTimes start end' price =
     (let priceDateTime = Price.date price;
          priceHour = hour priceDateTime;
          priceMinute = minute priceDateTime;
          priceMinutesSinceMidnight = priceHour * 60 + priceMinute;
          startMinutesSinceMidnight = hours start * 60 + minutes start;
          endMinutesSinceMidnight = hours end' * 60 + minutes end'
      in if startMinutesSinceMidnight > endMinutesSinceMidnight
         then priceMinutesSinceMidnight \<ge> startMinutesSinceMidnight
              \<or> priceMinutesSinceMidnight \<le> endMinutesSinceMidnight
         else priceMinutesSinceMidnight \<ge> startMinutesSinceMidnight
              \<and> priceMinutesSinceMidnight \<le> endMinutesSinceMidnight)"

definition getPricesBetweenTimes :: "Prices \<Rightarrow> TimeOfDay \<Rightarrow> TimeOfDay \<Rightarrow> error + Prices" where
  "getPricesBetweenTimes P start end' =
     (let filteredPrices = filter (withinTimes start end') (prices P)
      in new_Prices filteredPrices)"

section \<open>The client of the energy provider (lib/OstromServerClient.ts)\<close>

text \<open>
  \<^verbatim>\<open>getEnergyConsumption\<close> uses three things it does not define. They are its parameters:
  \<^item> \<open>plusYear t\<close> is \<^verbatim>\<open>t.plus({ years: 1 })\<close>;
  \<^item> \<open>diffYears e s\<close> is \<^verbatim>\<open>e.diff(s, 'years').years\<close>;
  \<^item> \<open>fetchChunk s e\<close> is \<^verbatim>\<open>fetchEnergyConsumptionChunk(externalUserId, contractId, s, e, resolution)\<close>
    for the user, contract and resolution of the call: the parsed response of the request,
    or the error the request throws.
  The result pairs the list of requests issued, oldest first, with what the call returns or
  throws. The loop is a partial function: \<open>None\<close> says that it never leaves the loop.
\<close>

partial_function (option) chunkLoop ::
  "(DateTime \<Rightarrow> DateTime) \<Rightarrow> (DateTime \<Rightarrow> DateTime \<Rightarrow> error + Consumption list) \<Rightarrow> DateTime
    \<Rightarrow> DateTime \<Rightarrow> (DateTime \<times> DateTime) list \<Rightarrow> Consumption list
    \<Rightarrow> ((DateTime \<times> DateTime) list \<times> (error + Consumption list)) option" where
  "chunkLoop plusYear fetchChunk endDate currentStart calls allConsumption =
     (if currentStart < endDate then
        (let currentEnd = min (plusYear currentStart) endDate in
         case fetchChunk currentStart currentEnd of
           Inl err \<Rightarrow> Some (calls @ [(currentStart, currentEnd)], Inl err)
         | Inr chunkConsumption \<Rightarrow>
             chunkLoop plusYear fetchChunk endDate currentEnd
               (calls @ [(currentStart, currentEnd)]) (allConsumption @ chunkConsumption))
      else Some (calls, Inr allConsumption))"

declare chunkLoop.simps [code]

definition getEnergyConsumption ::
  "(DateTime \<Rightarrow> DateTime) \<Rightarrow> (DateTime \<Rightarrow> DateTime \<Rightarrow> number)
    \<Rightarrow> (DateTime \<Rightarrow> DateTime \<Rightarrow> error + Consumption list) \<Rightarrow> DateTime \<Rightarrow> DateTime
    \<Rightarrow> ((DateTime \<times> DateTime) list \<times> (error + Consumption list)) option" where
  "getEnergyConsumption plusYear diffYears fetchChunk startDate endDate =
     (let diffInYears = diffYears endDate startDate
      in if diffInYears \<le> 1 then Some ([(startDate, endDate)], fetchChunk startDate endDate)
         else chunkLoop plusYear fetchChunk endDate startDate [] [])"

text \<open>
  The shape of the requests of one call, to compare the loop with: the first starts at the
  overall start, each ends a year after its start or at the overall end, whichever comes
  first, and the next starts where it ended. \<open>concatChunks\<close> is the concatenation of the
  responses in the order of the requests, or the first error among them.
\<close>

fun consecutiveChunks ::
  "(DateTime \<Rightarrow> DateTime) \<Rightarrow> DateTime \<Rightarrow> DateTime \<Rightarrow> (DateTime \<times> DateTime) list \<Rightarrow> bool" where
  "consecutiveChunks plusYear s e [] = True"
| "consecutiveChunks plusYear s e ((a, b) # cs) =
     (a = s \<and> b = min (plusYear a) e \<and> consecutiveChunks plusYear b e cs)"

fun concatChunks ::
  "(DateTime \<Rightarrow> DateTime \<Rightarrow> error + Consumption list) \<Rightarrow> (DateTime \<times> DateTime) list
    \<Rightarrow> error + Consumption list" where
  "concatChunks fetchChunk [] = Inr []"
| "concatChunks fetchChunk ((a, b) # cs) =
     (case fetchChunk a b of
        Inl err \<Rightarrow> Inl err
      | Inr chunk \<Rightarrow>
          (case concatChunks fetchChunk cs of Inl err \<Rightarrow> Inl err | Inr rest \<Rightarrow> Inr (chunk @ rest)))"

subsection \<open>The calendar in a zone of offset zero\<close>

text \<open>
  The two calendar operations in a zone of offset zero, for the examples. The calendar is
  the proleptic Gregorian one that luxon reads from the runtime's \<^verbatim>\<open>Date\<close>: the day number
  of a civil date, counted from 1970-01-01, and back (by 400-year eras of 146097 days that
  start on the first of March, centuries of 36524 days, four-year cycles of 1461 days and
  years of 365 days). \<open>plus_years n\<close> keeps month, day and time of day and moves the 29th of
  February to the 28th. \<open>diff_years\<close> counts the whole years that fit and adds the rest as
  a fraction of the year it falls in.
\<close>

definition daysFromCivil :: "int \<Rightarrow> int \<Rightarrow> int \<Rightarrow> int" where
  "daysFromCivil y m d =
     (let y' = (if m \<le> 2 then y - 1 else y);
          mp = (m + 9) mod 12
      in 365 * y' + y' div 4 - y' div 100 + y' div 400 + (153 * mp + 2) div 5 + d - 1 - 719468)"

definition civilFromDays :: "int \<Rightarrow> int \<times> int \<times> int" where
  "civilFromDays z =
     (let z' = z + 719468;
          era = z' div 146097;
          doe = z' mod 146097;
          c = min 3 (doe div 36524);
          r100 = doe - c * 36524;
          q = r100 div 1461;
          r4 = r100 mod 1461;
          n = min 3 (r4 div 365);
          doy = r4 - n * 365;
          yoe = 100 * c + 4 * q + n;
          mp = (5 * doy + 2) div 153;
          d = doy - (153 * mp + 2) div 5 + 1;
          m = (if mp < 10 then mp + 3 else mp - 9);
          y = yoe + era * 400
      in (if m \<le> 2 then y + 1 else y, m, d))"

definition daysInMonth :: "int \<Rightarrow> int \<Rightarrow> int" where
  "daysInMonth y m =
     (if m = 2 then (if y mod 4 = 0 \<and> (y mod 100 \<noteq> 0 \<or> y mod 400 = 0) then 29 else 28)
      else if m = 4 \<or> m = 6 \<or> m = 9 \<or> m = 11 then 30 else 31)"

definition year :: "DateTime \<Rightarrow> int" where
  "year t = fst (civilFromDays (t div 86400000))"

definition plus_years :: "int \<Rightarrow> DateTime \<Rightarrow> DateTime" where
  "plus_years n t =
     (case civilFromDays (t div 86400000) of
        (y, m, d) \<Rightarrow>
          daysFromCivil (y + n) m (min d (daysInMonth (y + n) m)) * 86400000 + t mod 86400000)"

definition diff_years_ordered :: "DateTime \<Rightarrow> DateTime \<Rightarrow> number" where
  "diff_years_ordered earlier later =
     (let delta = year later - year earlier;
          highWater = plus_years delta earlier
      in if highWater > later then
           (let cursor = plus_years (delta - 1) earlier
            in fl (of_int (delta - 1) + fl (of_int (later - cursor) / of_int (highWater - cursor))))
         else if highWater < later then
           (let cursor = highWater; highWater' = plus_years 1 cursor
            in fl (of_int delta + fl (of_int (later - cursor) / of_int (highWater' - cursor))))
         else of_int delta)"

definition diff_years :: "DateTime \<Rightarrow> DateTime \<Rightarrow> number" where
  "diff_years this other =
     (if other > this then - diff_years_ordered this other else diff_years_ordered other this)"

section \<open>The device (drivers/home/device.ts)\<close>

text \<open>
  The device keeps its capability values (\<^verbatim>\<open>null\<close> until first set), the hour it last
  fetched, and the current series and price; its store holds the contract's start date.
  What a method does to the outside is a list of events, oldest first. A method either
  returns or throws. The two calls of the client are parameters: \<open>getEC s e\<close> is
  \<^verbatim>\<open>client.getEnergyConsumption(contract.id, s, e, Resolution.HOUR)\<close> and \<open>getPrices s e\<close> is
  \<^verbatim>\<open>client.getPrices(s, e, contract.address.zip)\<close>: the value the call resolves to, or the
  error it rejects with. \<open>now\<close> is the instant \<^verbatim>\<open>DateTime.now()\<close> reads during the call.
  Setting a capability and dispatching a trigger are taken to succeed; the timer armed by
  \<^verbatim>\<open>scheduleNextUpdate\<close> and the \<^verbatim>\<open>log\<close> lines are left out.
\<close>

datatype capability =
  CAPABILITY_IMPORTED_POWER | CAPABILITY_PRICE_CURRENT | CAPABILITY_PRICE_HIGHEST
  | CAPABILITY_PRICE_LOWEST

datatype trigger =
  priceBelowAverageTrigger | priceAboveAverageTrigger
  | priceBelowAverageTodayTrigger | priceAboveAverageTodayTrigger
  | priceAtLowestTrigger | priceAtHighestTrigger
  | priceAtLowestTodayTrigger | priceAtHighestTodayTrigger
  | priceAmongLowestTrigger | priceAmongHighestTrigger

datatype event =
  Call_getEnergyConsumption DateTime DateTime
  | Call_getPrices DateTime DateTime
  | SetCapabilityValue capability extremum
  | Triggered trigger
  | LoggedError string

datatype completion = Returned | Threw error

record Device =
  meter_power :: "number option"
  measure_price_current :: "extremum option"
  measure_price_highest :: "extremum option"
  measure_price_lowest :: "extremum option"
  lastFetchedHour :: "DateTime option"
  currentPrices :: "Prices option"
  currentPrice :: "Price option"
  contract_startDate :: DateTime

text \<open>
  Modelled from the spec: \<^verbatim>\<open>ConditionHandlers.isPriceAtLowest\<close> and \<^verbatim>\<open>isPriceAtHighest\<close>,
  whose file is not among the sources: "atLowest(cur,low)/atHighest(cur,high) \<open>\<Leftrightarrow>\<close> |diff| <
  \<open>\<epsilon>\<close> (\<open>\<epsilon>\<close>=0.001, absolute)". The earlier copy of the device has both as private methods
  with this body, \<^verbatim>\<open>Math.abs(currentPrice - lowestPrice) < 0.001\<close> (part_000, lines 55-61),
  and the later copy writes the same comparison inline (lines 657 and 660). The difference
  to an infinite extremum is infinite.
\<close>

definition isPriceAtLowest :: "number \<Rightarrow> extremum \<Rightarrow> bool" where
  "isPriceAtLowest price lowestPrice =
     (case lowestPrice of Num l \<Rightarrow> \<bar>fl (price - l)\<bar> < fl (1 / 1000) | _ \<Rightarrow> False)"

definition isPriceAtHighest :: "number \<Rightarrow> extremum \<Rightarrow> bool" where
  "isPriceAtHighest price highestPrice =
     (case highestPrice of Num h \<Rightarrow> \<bar>fl (price - h)\<bar> < fl (1 / 1000) | _ \<Rightarrow> False)"

text \<open>
  \<^verbatim>\<open>parseFloat(x.toFixed(2))\<close>: the nearest multiple of a hundredth of the magnitude, the
  larger one at a tie, read back as a number.
\<close>

definition toFixed2 :: "extremum \<Rightarrow> extremum" where
  "toFixed2 v =
     (case v of Num x \<Rightarrow> Num (fl (sgn x * of_int \<lfloor>\<bar>x\<bar> * 100 + 1 / 2\<rfloor> / 100)) | _ \<Rightarrow> v)"

definition sumKwh :: "Consumption list \<Rightarrow> number" where
  "sumKwh cs = foldl (\<lambda>acc consumption. fl (acc + kWh consumption)) 0 cs"

definition initializeTotalUsage ::
  "(DateTime \<Rightarrow> DateTime \<Rightarrow> error + Consumption list) \<Rightarrow> DateTime \<Rightarrow> Device
    \<Rightarrow> completion \<times> Device \<times> event list" where
  "initializeTotalUsage getEC now d =
     (let startDate = startOfDay (contract_startDate d);
          endDate = startOfHour now;
          called = [Call_getEnergyConsumption startDate endDate]
      in case getEC startDate endDate of
           Inl err \<Rightarrow> (Threw err, d, called)
         | Inr historicalUsage \<Rightarrow>
             if length historicalUsage = 0
             then (Returned, d, called @ [LoggedError ''Could not find any historical usage entries!''])
             else
               (let totalKwh = sumKwh historicalUsage;
                    lastHour = last historicalUsage
                in (Returned,
                    d\<lparr>meter_power := Some totalKwh,
                      lastFetchedHour := Some (Consumption.date lastHour)\<rparr>,
                    called @ [SetCapabilityValue CAPABILITY_IMPORTED_POWER (Num totalKwh)])))"

definition updateTotalEnergyConsumption ::
  "(DateTime \<Rightarrow> DateTime \<Rightarrow> error + Consumption list) \<Rightarrow> DateTime \<Rightarrow> Device
    \<Rightarrow> completion \<times> Device \<times> event list" where
  "updateTotalEnergyConsumption getEC now d =
     (case lastFetchedHour d of
        None \<Rightarrow>
          (Returned, d,
           [LoggedError ''Did not fetch historical usage data, not going to do an incremental update!''])
      | Some lastFetched \<Rightarrow>
          if lastFetched = startOfHour now then (Returned, d, [])
          else
            (let currentValue = (case meter_power d of None \<Rightarrow> 0 | Some v \<Rightarrow> v);
                 startDate = startOfHour (plusHours 1 lastFetched);
                 endDate = startOfHour now;
                 called = [Call_getEnergyConsumption startDate endDate]
             in case getEC startDate endDate of
                  Inl err \<Rightarrow> (Threw err, d, called)
                | Inr incrementalConsumption \<Rightarrow>
                    if length incrementalConsumption = 0 then (Returned, d, called)
                    else
                      (let totalConsumption = fl (currentValue + sumKwh incrementalConsumption)
                       in (Returned,
                           d\<lparr>meter_power := Some totalConsumption,
                             lastFetchedHour :=
                               Some (Consumption.date (last incrementalConsumption))\<rparr>,
                           called @ [SetCapabilityValue CAPABILITY_IMPORTED_POWER
                                       (Num totalConsumption)]))))"

definition updatePricingInformation ::
  "(DateTime \<Rightarrow> DateTime \<Rightarrow> error + Price list) \<Rightarrow> DateTime \<Rightarrow> Device
    \<Rightarrow> completion \<times> Device \<times> event list" where
  "updatePricingInformation getPrices now d =
     (let startDate = startOfDay now;
          endDate = startOfDay (plusDays 1 now);
          called = [Call_getPrices startDate endDate]
      in case getPrices startDate endDate of
           Inl err \<Rightarrow> (Threw err, d, called)
         | Inr retrievedPrices \<Rightarrow>
             if length retrievedPrices = 0
             then (Returned, d, called @ [LoggedError ''Got an empty list of price values!''])
             else
               (case new_Prices retrievedPrices of
                  Inl err \<Rightarrow> (Threw err, d, called)
                | Inr prices0 \<Rightarrow>
                    (case getPriceAtInstant prices0 now of
                       None \<Rightarrow>
                         (Returned, d\<lparr>currentPrices := Some prices0\<rparr>,
                          called @ [LoggedError ''Could not find price for current hour''])
                     | Some current \<Rightarrow>
                         (case getHighest prices0 of
                            (highest, prices1) \<Rightarrow>
                              (case getLowest prices1 of
                                 (lowest, prices2) \<Rightarrow>
                                   (Returned,
                                    d\<lparr>measure_price_current := Some (toFixed2 (Num (netPrice current))),
                                      measure_price_highest := Some (toFixed2 highest),
                                      measure_price_lowest := Some (toFixed2 lowest),
                                      currentPrices := Some prices2,
                                      currentPrice := Some current\<rparr>,
                                    called
                                    @ [SetCapabilityValue CAPABILITY_PRICE_CURRENT
                                         (toFixed2 (Num (netPrice current))),
                                       SetCapabilityValue CAPABILITY_PRICE_HIGHEST (toFixed2 highest),
                                       SetCapabilityValue CAPABILITY_PRICE_LOWEST (toFixed2 lowest)]
                                    @ [Triggered priceBelowAverageTrigger,
                                       Triggered priceAboveAverageTrigger,
                                       Triggered priceAtLowestTrigger,
                                       Triggered priceAtHighestTrigger]
                                    @ [Triggered priceBelowAverageTodayTrigger,
                                       Triggered priceAboveAverageTodayTrigger,
                                       Triggered priceAmongLowestTrigger,
                                       Triggered priceAmongHighestTrigger]
                                    @ (if isPriceAtLowest (netPrice current) lowest
                                       then [Triggered priceAtLowestTodayTrigger] else [])
                                    @ (if isPriceAtHighest (netPrice current) highest
                                       then [Triggered priceAtHighestTodayTrigger] else [])))))))"

text \<open>The triggers dispatched and the capabilities set in a list of events, in order.\<close>

definition triggers :: "event list \<Rightarrow> trigger list" where
  "triggers evs = concat (map (\<lambda>ev. case ev of Triggered t \<Rightarrow> [t] | _ \<Rightarrow> []) evs)"

definition capabilitiesSet :: "event list \<Rightarrow> capability list" where
  "capabilitiesSet evs = concat (map (\<lambda>ev. case ev of SetCapabilityValue c v \<Rightarrow> [c] | _ \<Rightarrow> []) evs)"

section \<open>Example values\<close>

definition morningSeries :: Prices where
  "morningSeries = \<lparr>prices = [\<lparr>Price.date = 36000000, netPrice = 10\<rparr>,
                                \<lparr>Price.date = 39600000, netPrice = 12\<rparr>],
                     values_arr = [10, 12],
                     cache_lowest = None, cache_highest = None, cache_average = None\<rparr>"

definition tiedSeries :: "Price list" where
  "tiedSeries = [\<lparr>Price.date = 0, netPrice = 5\<rparr>, \<lparr>Price.date = 3600000, netPrice = 3\<rparr>,
                 \<lparr>Price.date = 7200000, netPrice = 5\<rparr>, \<lparr>Price.date = 10800000, netPrice = 3\<rparr>]"

definition tiedPrices :: Prices where
  "tiedPrices = \<lparr>prices = tiedSeries, values_arr = [5, 3, 5, 3],
                  cache_lowest = None, cache_highest = None, cache_average = None\<rparr>"




definition fourHours :: "Price list" where
  "fourHours = [\<lparr>Price.date = 0, netPrice = 30\<rparr>, \<lparr>Price.date = 3600000, netPrice = 20\<rparr>,
                \<lparr>Price.date = 7200000, netPrice = 10\<rparr>, \<lparr>Price.date = 10800000, netPrice = 40\<rparr>]"

definition fourHoursPrices :: Prices where
  "fourHoursPrices = \<lparr>prices = fourHours, values_arr = [30, 20, 10, 40],
                       cache_lowest = None, cache_highest = None, cache_average = None\<rparr>"

definition hourlyStub :: "DateTime \<Rightarrow> DateTime \<Rightarrow> error + Consumption list" where
  "hourlyStub s e = Inr [\<lparr>Consumption.date = s, kWh = 1\<rparr>]"

definition meterDevice :: Device where
  "meterDevice = \<lparr>meter_power = Some 10, measure_price_current = None,
                   measure_price_highest = None, measure_price_lowest = None,
                   lastFetchedHour = Some 36000000, currentPrices = None, currentPrice = None,
                   contract_startDate = 0\<rparr>"

definition emptyStub :: "DateTime \<Rightarrow> DateTime \<Rightarrow> error + Consumption list" where
  "emptyStub s e = Inr []"

definition negativeStub :: "DateTime \<Rightarrow> DateTime \<Rightarrow> error + Consumption list" where
  "negativeStub s e = Inr [\<lparr>Consumption.date = s, kWh = - 3\<rparr>]"

definition staleStub :: "DateTime \<Rightarrow> DateTime \<Rightarrow> error + Consumption list" where
  "staleStub s e = Inr [\<lparr>Consumption.date = 36000000, kWh = 5\<rparr>]"

definition noonDevice :: Device where
  "noonDevice = meterDevice\<lparr>lastFetchedHour := Some 43200000\<rparr>"

definition freshDevice :: Device where
  "freshDevice = \<lparr>meter_power = None, measure_price_current = None,
                   measure_price_highest = None, measure_price_lowest = None,
                   lastFetchedHour = None, currentPrices = None, currentPrice = None,
                   contract_startDate = 1000\<rparr>"

definition historyStub :: "DateTime \<Rightarrow> DateTime \<Rightarrow> error + Consumption list" where
  "historyStub s e = Inr [\<lparr>Consumption.date = 32400000, kWh = 2\<rparr>,
                           \<lparr>Consumption.date = 36000000, kWh = 3\<rparr>]"

definition dayPrices :: "Price list" where
  "dayPrices = [\<lparr>Price.date = 36000000, netPrice = 30\<rparr>, \<lparr>Price.date = 39600000, netPrice = 20\<rparr>,
                \<lparr>Price.date = 43200000, netPrice = 10\<rparr>, \<lparr>Price.date = 46800000, netPrice = 40\<rparr>]"

definition dayPricesStub :: "DateTime \<Rightarrow> DateTime \<Rightarrow> error + Price list" where
  "dayPricesStub s e = Inr dayPrices"

section \<open>Rounding\<close>

text \<open>
  The exponent chosen by \<open>ilog2\<close> brackets its argument, so the significand that \<open>fl\<close>
  rounds has 53 bits. Rounding keeps the sign and the order of its arguments.
\<close>

lemma pow2_bitlen:
  assumes "0 < (a::int)"
  shows "(2::rat) powi (bitlen a - 1) \<le> of_int a \<and> of_int a < (2::rat) powi (bitlen a)"
proof -
  have la: "1 \<le> bitlen a"
    using assms bitlen_eq_zero_iff[of a] bitlen_nonneg[of a] by linarith
  have 1: "(2::int) ^ nat (bitlen a - 1) \<le> a" and 2: "a < 2 ^ nat (bitlen a)"
    using bitlen_bounds[OF assms] by simp_all
  have "(of_int ((2::int) ^ nat (bitlen a - 1)) :: rat) \<le> of_int a"
    using 1 by (simp only: of_int_le_iff)
  moreover have "(of_int a :: rat) < of_int ((2::int) ^ nat (bitlen a))"
    using 2 by (simp only: of_int_less_iff)
  ultimately show ?thesis
    using la by (simp add: power_int_nonneg_exp)
qed

lemma ilog2_bounds:
  assumes "0 < x"
  shows "2 powi (ilog2 x) \<le> x \<and> x < 2 powi (ilog2 x + 1)"
proof -
  obtain a b where q: "quotient_of x = (a, b)" by (cases "quotient_of x")
  have b: "0 < b" using q by (rule quotient_of_denom_pos)
  have x: "x = of_int a / of_int b" using q by (rule quotient_of_div)
  have a: "0 < a" using assms b x by (simp add: zero_less_divide_iff)
  define k where "k = bitlen a - bitlen b"
  have la: "1 \<le> bitlen a" and lb: "1 \<le> bitlen b"
    using a b bitlen_eq_zero_iff[of a] bitlen_eq_zero_iff[of b] bitlen_nonneg[of a] bitlen_nonneg[of b]
    by linarith+
  have A: "(2::rat) powi (bitlen a - 1) \<le> of_int a" "of_int a < (2::rat) powi (bitlen a)"
    using pow2_bitlen[OF a] by simp_all
  have B: "(2::rat) powi (bitlen b - 1) \<le> of_int b" "of_int b < (2::rat) powi (bitlen b)"
    using pow2_bitlen[OF b] by simp_all
  have bpos: "(0::rat) < of_int b" using b by simp
  have lo: "(2::rat) powi (k - 1) < x"
  proof -
    have "(2::rat) powi (k - 1) * of_int b < 2 powi (k - 1) * 2 powi (bitlen b)"
      using B(2) by (simp)
    also have "\<dots> = 2 powi (bitlen a - 1)"
      by (simp add: k_def flip: power_int_add)
    also have "\<dots> \<le> of_int a" by (rule A(1))
    finally show ?thesis using bpos by (simp add: x pos_less_divide_eq)
  qed
  have hi: "x < (2::rat) powi (k + 1)"
  proof -
    have "of_int a < (2::rat) powi (bitlen a)" by (rule A(2))
    also have "\<dots> = 2 powi (k + 1) * 2 powi (bitlen b - 1)"
      by (simp add: k_def flip: power_int_add)
    also have "\<dots> \<le> 2 powi (k + 1) * of_int b"
      using B(1) by simp
    finally show ?thesis using bpos by (simp add: x pos_divide_less_eq)
  qed
  have eq: "ilog2 x = (if 2 powi k \<le> x then k else k - 1)"
    by (simp add: ilog2_def q k_def Let_def)
  show ?thesis
  proof (cases "2 powi k \<le> x")
    case True
    then show ?thesis using hi eq by simp
  next
    case False
    then show ?thesis using lo eq by simp
  qed
qed

lemma pow2_split: "k = int n + j \<Longrightarrow> (2::rat) powi k = 2 ^ n * 2 powi j"
  by (simp add: power_int_add)

lemma round_half_even_bounds: "\<lfloor>q\<rfloor> \<le> round_half_even q \<and> round_half_even q \<le> \<lfloor>q\<rfloor> + 1"
  by (simp add: round_half_even_def Let_def)

lemma round_half_even_of_int [simp]: "round_half_even (of_int n) = n"
  by (simp add: round_half_even_def)

lemma round_half_even_mono:
  assumes "q \<le> q'"
  shows "round_half_even q \<le> round_half_even q'"
proof (cases "\<lfloor>q\<rfloor> = \<lfloor>q'\<rfloor>")
  case True
  have "q - of_int \<lfloor>q\<rfloor> \<le> q' - of_int \<lfloor>q'\<rfloor>" using assms True by simp
  then show ?thesis using True
    by (simp add: round_half_even_def Let_def)
next
  case False
  have "\<lfloor>q\<rfloor> \<le> \<lfloor>q'\<rfloor>" using assms by (rule floor_mono)
  with False have "\<lfloor>q\<rfloor> + 1 \<le> \<lfloor>q'\<rfloor>" by simp
  then show ?thesis
    using round_half_even_bounds[of q] round_half_even_bounds[of q'] by linarith
qed

lemma round_half_even_le:
  assumes "q \<le> of_int n"
  shows "round_half_even q \<le> n"
  using round_half_even_mono[OF assms] by simp

lemma round_half_even_ge:
  assumes "of_int n \<le> q"
  shows "n \<le> round_half_even q"
  using round_half_even_mono[OF assms] by simp

lemma fl_pos_eq:
  assumes "0 < x"
  shows "fl x = of_int (round_half_even (x / 2 powi (ilog2 x - 52))) * 2 powi (ilog2 x - 52)"
  using assms by (simp add: fl_def Let_def)

lemma fl_minus: "fl (- x) = - fl x"
  by (simp add: fl_def Let_def sgn_minus)

lemma scaled_bounds:
  assumes "0 < x"
  shows "2 ^ 52 \<le> x / 2 powi (ilog2 x - 52) \<and> x / 2 powi (ilog2 x - 52) < 2 ^ 53"
proof -
  have p: "(0::rat) < 2 powi (ilog2 x - 52)" by simp
  have 1: "(2::rat) ^ 52 * 2 powi (ilog2 x - 52) = 2 powi (ilog2 x)"
    by (rule pow2_split[symmetric]) simp
  have 2: "(2::rat) ^ 53 * 2 powi (ilog2 x - 52) = 2 powi (ilog2 x + 1)"
    by (rule pow2_split[symmetric]) simp
  show ?thesis
    using ilog2_bounds[OF assms] p 1 2
    by (simp only: pos_le_divide_eq pos_divide_less_eq)
qed

lemma mant_bounds:
  assumes "0 < x"
  shows "2 ^ 52 \<le> round_half_even (x / 2 powi (ilog2 x - 52))
       \<and> round_half_even (x / 2 powi (ilog2 x - 52)) \<le> 2 ^ 53"
proof -
  let ?q = "x / 2 powi (ilog2 x - 52)"
  have "rat_of_int (2 ^ 52) \<le> ?q" "?q \<le> rat_of_int (2 ^ 53)"
    using scaled_bounds[OF assms] by simp_all
  then show ?thesis
    by (meson round_half_even_ge round_half_even_le)
qed

lemma fl_pos:
  assumes "0 < x"
  shows "0 < fl x"
proof -
  have "(0::int) < 2 ^ 52" by simp
  then have "0 < round_half_even (x / 2 powi (ilog2 x - 52))"
    using mant_bounds[OF assms] by linarith
  then show ?thesis
    by (simp add: fl_pos_eq[OF assms])
qed

lemma fl_zero [simp]: "fl 0 = 0"
  by (simp add: fl_def)

lemma fl_sgn: "sgn (fl x) = sgn x"
proof (cases x "0::rat" rule: linorder_cases)
  case less
  then have "0 < fl (- x)" by (intro fl_pos) simp
  then show ?thesis using less by (simp add: fl_minus)
next
  case equal
  then show ?thesis by simp
next
  case greater
  then show ?thesis using fl_pos[of x] by simp
qed

lemma ilog2_mono:
  assumes "0 < x" "x \<le> y"
  shows "ilog2 x \<le> ilog2 y"
proof (rule ccontr)
  assume "\<not> ilog2 x \<le> ilog2 y"
  then have "ilog2 y + 1 \<le> ilog2 x" by simp
  then have "(2::rat) powi (ilog2 y + 1) \<le> 2 powi (ilog2 x)"
    by (intro power_int_increasing) simp_all
  moreover have "y < 2 powi (ilog2 y + 1)" "2 powi (ilog2 x) \<le> x"
    using ilog2_bounds[of x] ilog2_bounds[of y] assms by simp_all
  ultimately show False using assms by linarith
qed

lemma fl_mono_pos:
  assumes "0 < x" "x \<le> y"
  shows "fl x \<le> fl y"
proof -
  have y: "0 < y" using assms by simp
  let ?ex = "ilog2 x - 52" and ?ey = "ilog2 y - 52"
  let ?mx = "round_half_even (x / 2 powi ?ex)" and ?my = "round_half_even (y / 2 powi ?ey)"
  show ?thesis
  proof (cases "ilog2 x = ilog2 y")
    case True
    have "x / 2 powi ?ex \<le> y / 2 powi ?ex"
      using assms by (simp add: divide_right_mono)
    then have "?mx \<le> round_half_even (y / 2 powi ?ex)" by (rule round_half_even_mono)
    then have "rat_of_int ?mx * 2 powi ?ex \<le> of_int (round_half_even (y / 2 powi ?ex)) * 2 powi ?ex"
      by (simp add: mult_right_mono)
    then show ?thesis
      using True by (simp add: fl_pos_eq[OF assms(1)] fl_pos_eq[OF y])
  next
    case False
    with ilog2_mono[OF assms] have lt: "?ex + 1 \<le> ?ey" by simp
    have "rat_of_int ?mx \<le> of_int (2 ^ 53)"
      using mant_bounds[OF assms(1)] by (simp only: of_int_le_iff)
    then have "rat_of_int ?mx * 2 powi ?ex \<le> 2 ^ 53 * 2 powi ?ex"
      by (simp add: mult_right_mono)
    also have "\<dots> = 2 ^ 52 * 2 powi (?ex + 1)"
    proof -
      have "(2::rat) powi (?ex + 1) = 2 ^ 1 * 2 powi ?ex"
        by (rule pow2_split) simp
      then show ?thesis by simp
    qed
    also have "\<dots> \<le> 2 ^ 52 * 2 powi ?ey"
      using lt by (intro mult_left_mono power_int_increasing) simp_all
    also have "\<dots> \<le> rat_of_int ?my * 2 powi ?ey"
    proof -
      have "rat_of_int (2 ^ 52) \<le> of_int ?my"
        using mant_bounds[OF y] by (simp only: of_int_le_iff)
      then show ?thesis by (simp add: mult_right_mono)
    qed
    finally show ?thesis
      by (simp add: fl_pos_eq[OF assms(1)] fl_pos_eq[OF y])
  qed
qed

lemma fl_mono:
  assumes "x \<le> y"
  shows "fl x \<le> fl y"
proof -
  consider "0 < x" | "x \<le> 0" "0 \<le> y" | "y < 0" by linarith
  then show ?thesis
  proof cases
    case 1
    then show ?thesis using assms by (rule fl_mono_pos)
  next
    case 2
    have "fl x \<le> 0"
      using 2(1) fl_pos[of "- x"] by (cases "x = 0") (simp_all add: fl_minus)
    moreover have "0 \<le> fl y"
      using 2(2) fl_pos[of y] by (cases "y = 0") simp_all
    ultimately show ?thesis by simp
  next
    case 3
    then have "fl (- y) \<le> fl (- x)" using assms by (intro fl_mono_pos) simp_all
    then show ?thesis by (simp add: fl_minus)
  qed
qed

section \<open>Arrays and the price series\<close>

lemma fl_diff_le_0_iff: "fl (a - b) \<le> 0 \<longleftrightarrow> a \<le> b"
proof -
  have "fl (a - b) \<le> 0 \<longleftrightarrow> sgn (fl (a - b)) \<noteq> 1"
    by (simp add: sgn_1_pos not_less)
  also have "\<dots> \<longleftrightarrow> sgn (a - b) \<noteq> 1" by (simp add: fl_sgn)
  also have "\<dots> \<longleftrightarrow> a \<le> b" by (simp add: sgn_1_pos not_less)
  finally show ?thesis .
qed

lemma insertBy_insort_key:
  assumes "\<And>x y. cmp x y \<le> 0 \<longleftrightarrow> f x \<le> f y"
  shows "insertBy cmp x ys = insort_key f x ys"
  by (induction ys) (simp_all add: assms)

lemma sortBy_sort_key:
  assumes "\<And>x y. cmp x y \<le> 0 \<longleftrightarrow> f x \<le> f y"
  shows "sortBy cmp xs = sort_key f xs"
  by (induction xs) (simp_all add: sortBy_def insertBy_insort_key[OF assms])

lemma sortBy_ascending:
  "sortBy (\<lambda>a b. fl (netPrice a - netPrice b)) ps = sort_key netPrice ps"
  by (rule sortBy_sort_key) (rule fl_diff_le_0_iff)

lemma sortBy_descending:
  "sortBy (\<lambda>a b. fl (netPrice b - netPrice a)) ps = sort_key (\<lambda>p. - netPrice p) ps"
  by (rule sortBy_sort_key) (simp add: fl_diff_le_0_iff)

lemma slice_0: "0 \<le> n \<Longrightarrow> slice xs 0 n = take (nat n) xs"
  by (auto simp add: slice_def Let_def max_def min_def)

lemma findIndex_lower: "- 1 \<le> findIndex p xs"
  by (induction xs) (simp_all add: Let_def)

lemma findIndex_none: "findIndex p xs = - 1 \<longleftrightarrow> (\<forall>x \<in> set xs. \<not> p x)"
proof (induction xs)
  case Nil
  then show ?case by simp
next
  case (Cons x xs)
  have "findIndex p xs + 1 \<noteq> - 1" using findIndex_lower[of p xs] by linarith
  then show ?case using Cons by (simp add: Let_def)
qed

lemma slice_index:
  assumes "0 \<le> i" "0 \<le> n"
  shows "slice xs i n = drop (nat i) (take (nat n) xs)"
proof -
  have "take (nat (max (min n (int (length xs)) - min i (int (length xs))) 0)) (drop (nat (min i (int (length xs)))) xs)
        = drop (nat i) (take (nat n) xs)"
    using assms by (auto simp add: drop_take min_def max_def nat_diff_distrib)
  then show ?thesis using assms by (simp add: slice_def Let_def)
qed

lemma findIndex_first:
  assumes "i < length xs" "p (xs ! i)" "\<forall>j < i. \<not> p (xs ! j)"
  shows "findIndex p xs = int i"
  using assms
proof (induction xs arbitrary: i)
  case Nil
  then show ?case by simp
next
  case (Cons x xs)
  show ?case
  proof (cases i)
    case 0
    then show ?thesis using Cons.prems by simp
  next
    case (Suc k)
    have nx: "\<not> p x" using Cons.prems(3) Suc by auto
    have "findIndex p xs = int k"
      using Cons.prems Suc by (intro Cons.IH) auto
    then show ?thesis using nx Suc by (simp add: Let_def)
  qed
qed

lemma new_Prices_Inr:
  "new_Prices ps = Inr P \<longleftrightarrow>
     ps \<noteq> [] \<and> P = \<lparr>prices = ps, values_arr = map netPrice ps,
                       cache_lowest = None, cache_highest = None, cache_average = None\<rparr>"
  by (auto simp add: new_Prices_def)

lemma new_Prices_nonempty:
  "ps \<noteq> [] \<Longrightarrow> \<exists>R. new_Prices ps = Inr R \<and> prices R = ps \<and> values_arr R = map netPrice ps"
  by (simp add: new_Prices_def)

lemma new_Prices_empty:
  "new_Prices [] = Inl (Error ''Prices constructor requires a non-empty array'')"
  by (simp add: new_Prices_def)

lemma minute_of_day: "hour t * 60 + minute t = (t div 60000) mod 1440"
proof -
  have 1: "t div 3600000 = (t div 60000) div 60"
    by (simp add: div_mult2_eq[symmetric])
  define u where "u = t div 60000"
  have "u mod (60 * 24) = 60 * (u div 60 mod 24) + u mod 60"
    by (rule zmod_zmult2_eq) simp
  then have "(u div 60) mod 24 * 60 + u mod 60 = u mod 1440"
    by simp
  then show ?thesis by (simp add: hour_def minute_def 1 u_def)
qed

section \<open>Sorting by price\<close>

lemma sort_key_desc_sorted: "sorted (rev (map f (sort_key (\<lambda>p. - f p) xs)))" for f :: "'a \<Rightarrow> rat"
proof -
  have "sorted (map (\<lambda>p. - f p) (sort_key (\<lambda>p. - f p) xs))" by (rule sorted_sort_key)
  then have "sorted_wrt (\<lambda>x y. - f x \<le> - f y) (sort_key (\<lambda>p. - f p) xs)"
    by (simp add: sorted_map)
  then have "sorted_wrt (\<lambda>x y. f y \<le> f x) (sort_key (\<lambda>p. - f p) xs)" by simp
  then have "sorted_wrt (\<lambda>x y. f x \<le> f y) (rev (sort_key (\<lambda>p. - f p) xs))"
    by (simp add: sorted_wrt_rev)
  then show ?thesis by (simp add: sorted_map rev_map)
qed

lemma sort_key_desc_stable:
  "filter (\<lambda>p. f p = k) (sort_key (\<lambda>p. - f p) xs) = filter (\<lambda>p. f p = k) xs" for f :: "'a \<Rightarrow> rat"
  using sort_key_stable[of "\<lambda>p. - f p" "- k" xs] by simp

section \<open>Extremes and mean\<close>

lemma fold_min_Min: "fold min xs x = Min (set (x # xs))" for x :: rat
  by (rule Min.set_eq_fold[symmetric])

lemma fold_max_Max: "fold max xs x = Max (set (x # xs))" for x :: rat
  by (rule Max.set_eq_fold[symmetric])

lemma Math_min_Min: "vs \<noteq> [] \<Longrightarrow> Math_min vs = Num (Min (set vs))"
  by (cases vs) (simp_all only: Math_min.simps fold_min_Min, simp)

lemma Math_max_Max: "vs \<noteq> [] \<Longrightarrow> Math_max vs = Num (Max (set vs))"
  by (cases vs) (simp_all only: Math_max.simps fold_max_Max, simp)




section \<open>The calendar\<close>

text \<open>
  The day number of the civil date of a day number is that day number, and a year later is
  later.
\<close>

lemma civil_parts:
  fixes doe :: int
  assumes doe: "0 \<le> doe" "doe < 146097"
  defines "c \<equiv> min 3 (doe div 36524)"
  defines "r100 \<equiv> doe - c * 36524"
  defines "q \<equiv> r100 div 1461"
  defines "r4 \<equiv> r100 mod 1461"
  defines "n \<equiv> min 3 (r4 div 365)"
  defines "doy \<equiv> r4 - n * 365"
  defines "yoe \<equiv> 100 * c + 4 * q + n"
  shows "0 \<le> doy \<and> doy \<le> 365 \<and> 0 \<le> yoe \<and> yoe \<le> 399
       \<and> doe = 365 * yoe + yoe div 4 - yoe div 100 + doy"
proof -
  have c: "0 \<le> c" "c \<le> 3" using doe by (simp_all add: c_def)
  have r100: "0 \<le> r100" "r100 \<le> 36524"
  proof -
    have "36524 * (doe div 36524) \<le> doe" by simp
    then show "0 \<le> r100" unfolding r100_def c_def by (simp add: min_def; linarith)
    show "r100 \<le> 36524"
    proof (cases "doe div 36524 \<le> 3")
      case True
      then have "r100 = doe mod 36524" by (simp add: r100_def c_def min_def minus_mult_div_eq_mod minus_div_mult_eq_mod)
      then show ?thesis using pos_mod_bound[of 36524 doe] by simp
    next
      case False
      then show ?thesis using doe by (simp add: r100_def c_def min_def)
    qed
  qed
  have "r100 div 1461 \<le> 36524 div 1461"
    using r100 by (intro zdiv_mono1) simp_all
  then have q: "0 \<le> q" "q \<le> 24" using r100 by (simp_all add: q_def)
  have r4: "0 \<le> r4" "r4 \<le> 1460" using pos_mod_bound[of 1461 r100] by (simp_all add: r4_def)
  have split100: "r100 = 1461 * q + r4" by (simp add: q_def r4_def)
  have n: "0 \<le> n" "n \<le> 3" using r4 by (simp_all add: n_def)
  have doy: "0 \<le> doy" "doy \<le> 365"
  proof -
    have "365 * (r4 div 365) \<le> r4" by simp
    then show "0 \<le> doy" unfolding doy_def n_def by (simp add: min_def; linarith)
    show "doy \<le> 365"
    proof (cases "r4 div 365 \<le> 3")
      case True
      then have "doy = r4 mod 365" by (simp add: doy_def n_def min_def minus_mult_div_eq_mod minus_div_mult_eq_mod)
      then show ?thesis using pos_mod_bound[of 365 r4] by simp
    next
      case False
      then show ?thesis using r4 by (simp add: doy_def n_def min_def)
    qed
  qed
  have yoe: "0 \<le> yoe" "yoe \<le> 399" using c q n by (simp_all add: yoe_def)
  have d4: "yoe div 4 = 25 * c + q"
  proof -
    have "yoe = (25 * c + q) * 4 + n" by (simp add: yoe_def)
    then have "yoe div 4 = (25 * c + q) + n div 4" by simp
    then show ?thesis using n by simp
  qed
  have d100: "yoe div 100 = c"
  proof -
    have "yoe = c * 100 + (4 * q + n)" by (simp add: yoe_def)
    then have "yoe div 100 = c + (4 * q + n) div 100" by simp
    moreover have "(4 * q + n) div 100 = 0" using q n by simp
    ultimately show ?thesis by simp
  qed
  have "doe = 365 * yoe + yoe div 4 - yoe div 100 + doy"
    unfolding d4 d100 using split100 by (simp add: yoe_def doy_def r100_def)
  then show ?thesis using doy yoe by simp
qed

lemma civilFromDays_inverse:
  obtains y m d where "civilFromDays z = (y, m, d)" "daysFromCivil y m d = z" "d \<le> 366"
proof -
  define doe where "doe = (z + 719468) mod 146097"
  define era where "era = (z + 719468) div 146097"
  define c where "c = min 3 (doe div 36524)"
  define r100 where "r100 = doe - c * 36524"
  define q where "q = r100 div 1461"
  define r4 where "r4 = r100 mod 1461"
  define n where "n = min 3 (r4 div 365)"
  define doy where "doy = r4 - n * 365"
  define yoe where "yoe = 100 * c + 4 * q + n"
  define mp where "mp = (5 * doy + 2) div 153"
  define d where "d = doy - (153 * mp + 2) div 5 + 1"
  define m where "m = (if mp < 10 then mp + 3 else mp - 9)"
  define y where "y = (if m \<le> 2 then yoe + era * 400 + 1 else yoe + era * 400)"
  have doe: "0 \<le> doe" "doe < 146097" by (simp_all add: doe_def)
  have z: "z + 719468 = 146097 * era + doe" by (simp add: doe_def era_def)
  have "0 \<le> doy \<and> doy \<le> 365 \<and> 0 \<le> yoe \<and> yoe \<le> 399
       \<and> doe = 365 * yoe + yoe div 4 - yoe div 100 + doy"
    using civil_parts[OF doe]
    by (simp only: doy_def yoe_def n_def r4_def q_def r100_def c_def)
  then have parts: "0 \<le> doy" "doy \<le> 365" "0 \<le> yoe" "yoe \<le> 399"
    "doe = 365 * yoe + yoe div 4 - yoe div 100 + doy"
    by blast+
  have "(5 * doy + 2) div 153 \<le> (5 * 365 + 2) div 153"
    using parts(2) by (intro zdiv_mono1) simp_all
  moreover have "0 \<le> (5 * doy + 2) div 153"
    using parts(1) by (intro pos_imp_zdiv_nonneg_iff[THEN iffD2]) simp_all
  ultimately have mp: "0 \<le> mp" "mp \<le> 11" by (simp_all add: mp_def)
  have mth: "(m + 9) mod 12 = mp"
    using mp by (cases "mp < 10") (simp_all add: m_def)
  have y': "(if m \<le> 2 then y - 1 else y) = yoe + era * 400"
    by (simp add: y_def)
  have e4: "(yoe + era * 400) div 4 = yoe div 4 + era * 100"
  proof -
    have "yoe + era * 400 = yoe + (era * 100) * 4" by simp
    then show ?thesis by (simp only: div_mult_self1; simp)
  qed
  have e100: "(yoe + era * 400) div 100 = yoe div 100 + era * 4"
  proof -
    have "yoe + era * 400 = yoe + (era * 4) * 100" by simp
    then show ?thesis by (simp only: div_mult_self1; simp)
  qed
  have e400: "(yoe + era * 400) div 400 = era"
    using parts(3,4) by simp
  have nonneg: "0 \<le> (153 * mp + 2) div 5"
    using mp(1) by (intro pos_imp_zdiv_nonneg_iff[THEN iffD2]) simp_all
  have cfd: "civilFromDays z = (y, m, d)"
    by (simp only: civilFromDays_def Let_def y_def m_def d_def mp_def doy_def yoe_def n_def
          r4_def q_def r100_def c_def doe_def era_def)
  have inv: "daysFromCivil y m d = z"
    unfolding daysFromCivil_def Let_def y' mth e4 e100 e400
    using z parts(5) by (simp add: d_def)
  have "d \<le> 366" using nonneg parts(2) by (simp add: d_def)
  with cfd inv show ?thesis by (rule that)
qed

lemma plus_years_progress: "t < plus_years 1 t"
proof -
  obtain y m d where cfd: "civilFromDays (t div 86400000) = (y, m, d)"
    and inv: "daysFromCivil y m d = t div 86400000" and d: "d \<le> 366"
    by (rule civilFromDays_inverse)
  define y' where "y' = (if m \<le> 2 then y - 1 else y)"
  define g where "g = (153 * ((m + 9) mod 12) + 2) div 5"
  have next_y: "(if m \<le> 2 then y + 1 - 1 else y + 1) = y' + 1" by (simp add: y'_def)
  have s4: "y' div 4 \<le> (y' + 1) div 4" by (intro zdiv_mono1) simp_all
  have s400: "y' div 400 \<le> (y' + 1) div 400" by (intro zdiv_mono1) simp_all
  have s100: "(y' + 1) div 100 \<le> y' div 100 + 1"
  proof -
    have "(y' + 1) div 100 \<le> (y' + 100) div 100" by (intro zdiv_mono1) simp_all
    then show ?thesis by simp
  qed
  have dim: "28 \<le> daysInMonth (y + 1) m" by (simp add: daysInMonth_def)
  define d' where "d' = min d (daysInMonth (y + 1) m)"
  have d': "d - 338 \<le> d'" using d dim by (simp add: d'_def min_def)
  have a: "daysFromCivil y m d = 365 * y' + y' div 4 - y' div 100 + y' div 400 + g + d - 1 - 719468"
    by (simp add: daysFromCivil_def Let_def y'_def g_def)
  have b: "daysFromCivil (y + 1) m d'
             = 365 * (y' + 1) + (y' + 1) div 4 - (y' + 1) div 100 + (y' + 1) div 400 + g + d' - 1 - 719468"
    unfolding daysFromCivil_def Let_def next_y by (simp add: g_def)
  define a4 where "a4 = y' div 4"
  define a100 where "a100 = y' div 100"
  define a400 where "a400 = y' div 400"
  define b4 where "b4 = (y' + 1) div 4"
  define b100 where "b100 = (y' + 1) div 100"
  define b400 where "b400 = (y' + 1) div 400"
  have "365 * y' + a4 - a100 + a400 + g + d - 1 - 719468
          < 365 * (y' + 1) + b4 - b100 + b400 + g + d' - 1 - 719468"
    using s4 s100 s400 d' unfolding a4_def[symmetric] a100_def[symmetric] a400_def[symmetric]
      b4_def[symmetric] b100_def[symmetric] b400_def[symmetric]
    by (simp add: algebra_simps)
  then have "daysFromCivil y m d < daysFromCivil (y + 1) m d'"
    unfolding a b a4_def a100_def a400_def b4_def b100_def b400_def .
  then have "t div 86400000 + 1 \<le> daysFromCivil (y + 1) m d'"
    using inv by simp
  then have "(t div 86400000) * 86400000 + 86400000 \<le> daysFromCivil (y + 1) m d' * 86400000"
    by simp
  moreover have "t = (t div 86400000) * 86400000 + t mod 86400000" by simp
  ultimately have "t < daysFromCivil (y + 1) m d' * 86400000 + t mod 86400000"
    by linarith
  moreover have "plus_years 1 t = daysFromCivil (y + 1) m d' * 86400000 + t mod 86400000"
    by (simp only: plus_years_def cfd prod.case d'_def)
  ultimately show ?thesis
    by (simp only:)
qed

section \<open>Chunked requests\<close>

lemma chunkLoop_runs:
  assumes progress: "\<And>t. t < plusYear t"
  shows "\<exists>calls' r.
           chunkLoop plusYear fetchChunk e s calls acc = Some (calls @ calls', r)
           \<and> consecutiveChunks plusYear s e calls'
           \<and> (\<forall>(a, b) \<in> set calls'. a < b \<and> b \<le> plusYear a \<and> b \<le> e)
           \<and> (\<forall>(a, b) \<in> set (butlast calls'). \<exists>c. fetchChunk a b = Inr c)
           \<and> (case r of
                 Inl err \<Rightarrow> calls' \<noteq> [] \<and> fetchChunk (fst (last calls')) (snd (last calls')) = Inl err
               | Inr res \<Rightarrow>
                   (\<exists>rest. concatChunks fetchChunk calls' = Inr rest \<and> res = acc @ rest)
                   \<and> (if s < e then calls' \<noteq> [] \<and> snd (last calls') = e else calls' = []))"
proof (induction "nat (e - s)" arbitrary: s calls acc rule: less_induct)
  case less
  show ?case
  proof (cases "s < e")
    case False
    then have "chunkLoop plusYear fetchChunk e s calls acc = Some (calls @ [], Inr acc)"
      by (subst chunkLoop.simps) simp
    then show ?thesis using False
      by (intro exI[of _ "[]"] exI[of _ "Inr acc"]) simp
  next
    case True
    define cE where "cE = min (plusYear s) e"
    have cE: "s < cE" "cE \<le> plusYear s" "cE \<le> e"
      using progress[of s] True by (simp_all add: cE_def)
    show ?thesis
    proof (cases "fetchChunk s cE")
      case (Inl err)
      then have "chunkLoop plusYear fetchChunk e s calls acc = Some (calls @ [(s, cE)], Inl err)"
        using True by (subst chunkLoop.simps) (simp add: cE_def Let_def)
      then show ?thesis using cE Inl
        by (intro exI[of _ "[(s, cE)]"] exI[of _ "Inl err"]) (simp add: cE_def)
    next
      case (Inr chunk)
      have step: "chunkLoop plusYear fetchChunk e s calls acc
                   = chunkLoop plusYear fetchChunk e cE (calls @ [(s, cE)]) (acc @ chunk)"
        using True Inr by (subst chunkLoop.simps) (simp add: cE_def Let_def)
      have "nat (e - cE) < nat (e - s)" using cE True by linarith
      from less[OF this, of "calls @ [(s, cE)]" "acc @ chunk"]
      obtain calls'' r where
        run: "chunkLoop plusYear fetchChunk e cE (calls @ [(s, cE)]) (acc @ chunk)
                = Some ((calls @ [(s, cE)]) @ calls'', r)"
        and cons: "consecutiveChunks plusYear cE e calls''"
        and len: "\<forall>(a, b) \<in> set calls''. a < b \<and> b \<le> plusYear a \<and> b \<le> e"
        and ok: "\<forall>(a, b) \<in> set (butlast calls''). \<exists>c. fetchChunk a b = Inr c"
        and res: "case r of
                 Inl err \<Rightarrow> calls'' \<noteq> [] \<and> fetchChunk (fst (last calls'')) (snd (last calls'')) = Inl err
               | Inr res \<Rightarrow>
                   (\<exists>rest. concatChunks fetchChunk calls'' = Inr rest \<and> res = (acc @ chunk) @ rest)
                   \<and> (if cE < e then calls'' \<noteq> [] \<and> snd (last calls'') = e else calls'' = [])"
        by blast
      let ?calls = "(s, cE) # calls''"
      have 1: "chunkLoop plusYear fetchChunk e s calls acc = Some (calls @ ?calls, r)"
        using step run by simp
      have 2: "consecutiveChunks plusYear s e ?calls"
        using cons by (simp add: cE_def)
      have 3: "\<forall>(a, b) \<in> set ?calls. a < b \<and> b \<le> plusYear a \<and> b \<le> e"
        using len cE by simp
      have 4: "\<forall>(a, b) \<in> set (butlast ?calls). \<exists>c. fetchChunk a b = Inr c"
        using ok Inr by (cases "calls'' = []") auto
      have 5: "case r of
                 Inl err \<Rightarrow> ?calls \<noteq> [] \<and> fetchChunk (fst (last ?calls)) (snd (last ?calls)) = Inl err
               | Inr res \<Rightarrow>
                   (\<exists>rest. concatChunks fetchChunk ?calls = Inr rest \<and> res = acc @ rest)
                   \<and> (if s < e then ?calls \<noteq> [] \<and> snd (last ?calls) = e else ?calls = [])"
      proof (cases r)
        case (Inl err)
        then show ?thesis using res by auto
      next
        case (Inr out)
        then obtain rest where rest: "concatChunks fetchChunk calls'' = Inr rest"
            "out = (acc @ chunk) @ rest"
          and fin: "if cE < e then calls'' \<noteq> [] \<and> snd (last calls'') = e else calls'' = []"
          using res by auto
        have "concatChunks fetchChunk ?calls = Inr (chunk @ rest)"
          using rest(1) \<open>fetchChunk s cE = Inr chunk\<close> by simp
        moreover have "snd (last ?calls) = e"
          using fin cE by (cases "cE < e") auto
        ultimately show ?thesis using Inr rest(2) True by simp
      qed
      show ?thesis
        using 1 2 3 4 5 by blast
    qed
  qed
qed

lemma three_chunks:
  assumes cons: "consecutiveChunks plusYear s e calls"
    and ne: "calls \<noteq> []"
    and len: "\<forall>(a, b) \<in> set calls. a < b \<and> b \<le> plusYear a \<and> b \<le> e"
    and fin: "case r of
                Inl err \<Rightarrow> fetchChunk (fst (last calls)) (snd (last calls)) = Inl err
              | Inr res \<Rightarrow> snd (last calls) = e \<and> concatChunks fetchChunk calls = Inr res"
    and span: "plusYear (plusYear s) < e" "e \<le> plusYear (plusYear (plusYear s))"
    and p1: "s < plusYear s" and p2: "plusYear s < plusYear (plusYear s)"
    and ok1: "\<exists>c. fetchChunk s (plusYear s) = Inr c"
    and ok2: "\<exists>c. fetchChunk (plusYear s) (plusYear (plusYear s)) = Inr c"
  shows "calls = [(s, plusYear s), (plusYear s, plusYear (plusYear s)), (plusYear (plusYear s), e)]"
proof -
  let ?p = "plusYear s" and ?pp = "plusYear (plusYear s)"
  have m1: "min ?p e = ?p" and m2: "min ?pp e = ?pp" and m3: "min (plusYear ?pp) e = e"
    using span p2 by simp_all
  obtain cs where c1: "calls = (s, ?p) # cs" and k1: "consecutiveChunks plusYear ?p e cs"
    using cons ne m1 by (cases calls) auto
  have "cs \<noteq> []"
  proof
    assume "cs = []"
    then have "last calls = (s, ?p)" using c1 by simp
    then show False using fin ok1 span p2 by (cases r) auto
  qed
  then obtain cs' where c2: "cs = (?p, ?pp) # cs'" and k2: "consecutiveChunks plusYear ?pp e cs'"
    using k1 m2 by (cases cs) auto
  have "cs' \<noteq> []"
  proof
    assume "cs' = []"
    then have "last calls = (?p, ?pp)" using c1 c2 by simp
    then show False using fin ok2 span by (cases r) auto
  qed
  then obtain cs'' where c3: "cs' = (?pp, e) # cs''" and k3: "consecutiveChunks plusYear e e cs''"
    using k2 m3 by (cases cs') auto
  have "cs'' = []"
  proof (cases cs'')
    case Nil
    then show ?thesis .
  next
    case (Cons x xs)
    obtain a b where x: "x = (a, b)" by (cases x)
    have "a = e" "b \<le> e" "a < b"
      using k3 len Cons x c1 c2 c3 by auto
    then show ?thesis by simp
  qed
  then show ?thesis using c1 c2 c3 by simp
qed

lemma two_chunks:
  assumes cons: "consecutiveChunks plusYear s e calls"
    and ne: "calls \<noteq> []"
    and len: "\<forall>(a, b) \<in> set calls. a < b \<and> b \<le> plusYear a \<and> b \<le> e"
    and fin: "case r of
                Inl err \<Rightarrow> fetchChunk (fst (last calls)) (snd (last calls)) = Inl err
              | Inr res \<Rightarrow> snd (last calls) = e \<and> concatChunks fetchChunk calls = Inr res"
    and span: "plusYear s < e" "e \<le> plusYear (plusYear s)"
    and ok1: "\<exists>c. fetchChunk s (plusYear s) = Inr c"
  shows "calls = [(s, plusYear s), (plusYear s, e)]"
proof -
  let ?p = "plusYear s"
  have m1: "min ?p e = ?p" and m2: "min (plusYear ?p) e = e"
    using span by simp_all
  obtain cs where c1: "calls = (s, ?p) # cs" and k1: "consecutiveChunks plusYear ?p e cs"
    using cons ne m1 by (cases calls) auto
  have "cs \<noteq> []"
  proof
    assume "cs = []"
    then have "last calls = (s, ?p)" using c1 by simp
    then show False using fin ok1 span by (cases r) auto
  qed
  then obtain cs' where c2: "cs = (?p, e) # cs'" and k2: "consecutiveChunks plusYear e e cs'"
    using k1 m2 by (cases cs) auto
  have "cs' = []"
  proof (cases cs')
    case Nil
    then show ?thesis .
  next
    case (Cons x xs)
    obtain a b where x: "x = (a, b)" by (cases x)
    have "a = e" "b \<le> e" "a < b"
      using k2 len Cons x c1 c2 by auto
    then show ?thesis by simp
  qed
  then show ?thesis using c1 c2 by simp
qed

section \<open>Rounding, continued, and the sum of deltas\<close>

lemma ilog2_unique:
  assumes "2 powi k \<le> x" "x < 2 powi (k + 1)"
  shows "ilog2 x = k"
proof -
  have x: "0 < x" using assms(1) zero_less_power_int[of "2::rat" k] by linarith
  have b: "2 powi (ilog2 x) \<le> x" "x < 2 powi (ilog2 x + 1)"
    using ilog2_bounds[OF x] by simp_all
  have "\<not> k < ilog2 x"
  proof
    assume "k < ilog2 x"
    then have "(2::rat) powi (k + 1) \<le> 2 powi (ilog2 x)"
      by (intro power_int_increasing) simp_all
    then show False using assms(2) b(1) by linarith
  qed
  moreover have "\<not> ilog2 x < k"
  proof
    assume "ilog2 x < k"
    then have "(2::rat) powi (ilog2 x + 1) \<le> 2 powi k"
      by (intro power_int_increasing) simp_all
    then show False using assms(1) b(2) by linarith
  qed
  ultimately show ?thesis by simp
qed

lemma fl_pow2: "fl (2 powi k) = 2 powi k"
proof -
  define y :: rat where "y = 2 powi k"
  have pos: "0 < y" by (simp add: y_def)
  have lg: "ilog2 y = k"
    unfolding y_def by (rule ilog2_unique) (simp_all add: power_int_strict_increasing)
  have split: "y = 2 ^ 52 * 2 powi (k - 52)"
    unfolding y_def by (rule pow2_split) simp
  have "y / 2 powi (k - 52) = of_int (2 ^ 52)"
    by (subst split) simp
  then have "round_half_even (y / 2 powi (k - 52)) = 2 ^ 52"
    by (simp only: round_half_even_of_int)
  then have "fl y = of_int (2 ^ 52) * 2 powi (k - 52)"
    unfolding fl_pos_eq[OF pos] lg by simp
  then have "fl y = y" using split by simp
  then show ?thesis by (simp only: y_def)
qed

lemma fl_of_scaled_int:
  assumes "2 ^ 52 \<le> m" "m \<le> 2 ^ 53"
  shows "fl (of_int m * 2 powi e) = of_int m * 2 powi e"
proof (cases "m = 2 ^ 53")
  case True
  have "rat_of_int m * 2 powi e = 2 powi (e + 53)"
    using True pow2_split[of "e + 53" 53 e] by simp
  then show ?thesis by (simp only: fl_pow2)
next
  case False
  let ?x = "rat_of_int m * 2 powi e"
  have m: "rat_of_int (2 ^ 52) \<le> of_int m" "rat_of_int m < of_int (2 ^ 53)"
    using assms False by (simp_all only: of_int_le_iff of_int_less_iff)
  have mpos: "(0::rat) < of_int m" using m(1) by simp
  have pos: "0 < ?x" using mpos by simp
  have lo: "2 powi (e + 52) \<le> ?x"
  proof -
    have "(2::rat) powi (e + 52) = 2 ^ 52 * 2 powi e" by (rule pow2_split) simp
    also have "\<dots> \<le> of_int m * 2 powi e" using m(1) by (intro mult_right_mono) simp_all
    finally show ?thesis .
  qed
  have hi: "?x < 2 powi (e + 52 + 1)"
  proof -
    have "of_int m * 2 powi e < 2 ^ 53 * (2::rat) powi e"
      using m(2) by (intro mult_strict_right_mono) simp_all
    also have "\<dots> = 2 powi (e + 52 + 1)" by (rule pow2_split[symmetric]) simp
    finally show ?thesis .
  qed
  have lg: "ilog2 ?x = e + 52" using lo hi by (rule ilog2_unique)
  have "?x / 2 powi (ilog2 ?x - 52) = of_int m" unfolding lg by simp
  then have "round_half_even (?x / 2 powi (ilog2 ?x - 52)) = m"
    by (simp only: round_half_even_of_int)
  then show ?thesis unfolding fl_pos_eq[OF pos] lg by simp
qed

lemma fl_idem: "fl (fl x) = fl x"
proof -
  have pos: "fl (fl x) = fl x" if "0 < x" for x
    unfolding fl_pos_eq[OF that]
    using mant_bounds[OF that] by (intro fl_of_scaled_int) simp_all
  show ?thesis
  proof (cases x "0::rat" rule: linorder_cases)
    case less
    then have "fl (fl (- x)) = fl (- x)" by (intro pos) simp
    then show ?thesis by (simp add: fl_minus)
  next
    case equal
    then show ?thesis by simp
  next
    case greater
    then show ?thesis by (rule pos)
  qed
qed

lemma foldl_kWh_nonneg:
  assumes "\<forall>c \<in> set cs. 0 \<le> kWh c" "0 \<le> acc"
  shows "0 \<le> foldl (\<lambda>acc consumption. fl (acc + kWh consumption)) acc cs"
  using assms
proof (induction cs arbitrary: acc)
  case Nil
  then show ?case by simp
next
  case (Cons c cs)
  have "fl 0 \<le> fl (acc + kWh c)" using Cons.prems by (intro fl_mono) simp
  then have "0 \<le> fl (acc + kWh c)" by simp
  then show ?case using Cons by simp
qed

lemma sumKwh_nonneg: "\<forall>c \<in> set cs. 0 \<le> kWh c \<Longrightarrow> 0 \<le> sumKwh cs"
  unfolding sumKwh_def by (rule foldl_kWh_nonneg) simp_all

lemma sumKwh_rounded: "fl (sumKwh cs) = sumKwh cs"
proof (cases cs rule: rev_cases)
  case Nil
  then show ?thesis by (simp add: sumKwh_def)
next
  case (snoc ys y)
  then show ?thesis by (simp add: sumKwh_def fl_idem)
qed

lemma fl_add_nonneg:
  assumes "fl a = a" "0 \<le> s"
  shows "a \<le> fl (a + s)"
proof -
  have "fl a \<le> fl (a + s)" using assms(2) by (intro fl_mono) simp
  then show ?thesis using assms(1) by simp
qed

lemma startOfHour_next: "l < startOfHour (plusHours 1 l)"
proof -
  have "(l + 3600000) mod 3600000 < 3600000" by simp
  then show ?thesis by (simp add: startOfHour_def plusHours_def)
qed

section \<open>The incremental update\<close>

lemma update_same_hour:
  "lastFetchedHour d = Some (startOfHour now)
     \<Longrightarrow> updateTotalEnergyConsumption getEC now d = (Returned, d, [])"
  by (simp add: updateTotalEnergyConsumption_def)

lemma update_empty:
  "lastFetchedHour d = Some l \<Longrightarrow> l \<noteq> startOfHour now
     \<Longrightarrow> getEC (startOfHour (plusHours 1 l)) (startOfHour now) = Inr []
     \<Longrightarrow> updateTotalEnergyConsumption getEC now d
           = (Returned, d, [Call_getEnergyConsumption (startOfHour (plusHours 1 l)) (startOfHour now)])"
  by (simp add: updateTotalEnergyConsumption_def Let_def)

lemma update_folds:
  assumes "lastFetchedHour d = Some l" "l \<noteq> startOfHour now"
    "getEC (startOfHour (plusHours 1 l)) (startOfHour now) = Inr inc" "inc \<noteq> []"
  shows "updateTotalEnergyConsumption getEC now d
           = (Returned,
              d\<lparr>meter_power := Some (fl ((case meter_power d of None \<Rightarrow> 0 | Some v \<Rightarrow> v) + sumKwh inc)),
                lastFetchedHour := Some (Consumption.date (last inc))\<rparr>,
              [Call_getEnergyConsumption (startOfHour (plusHours 1 l)) (startOfHour now),
               SetCapabilityValue CAPABILITY_IMPORTED_POWER
                 (Num (fl ((case meter_power d of None \<Rightarrow> 0 | Some v \<Rightarrow> v) + sumKwh inc)))])"
  using assms by (simp add: updateTotalEnergyConsumption_def Let_def)

section \<open>The meter\<close>

lemma initialize_folds:
  assumes "getEC (startOfDay (contract_startDate d)) (startOfHour now) = Inr h" "h \<noteq> []"
  shows "initializeTotalUsage getEC now d
           = (Returned,
              d\<lparr>meter_power := Some (sumKwh h),
                lastFetchedHour := Some (Consumption.date (last h))\<rparr>,
              [Call_getEnergyConsumption (startOfDay (contract_startDate d)) (startOfHour now),
               SetCapabilityValue CAPABILITY_IMPORTED_POWER (Num (sumKwh h))])"
  using assms by (simp add: initializeTotalUsage_def Let_def)

lemma sorted_le_last: "sorted xs \<Longrightarrow> x \<in> set xs \<Longrightarrow> x \<le> last xs" for x :: int
  by (induction xs) auto

lemma ascending_dates:
  assumes "sorted_wrt (<) (map Consumption.date cs)" "cs \<noteq> []"
  shows "distinct (map Consumption.date cs)
       \<and> (\<forall>c \<in> set cs. Consumption.date c \<le> Consumption.date (last cs))"
proof -
  have d: "distinct (map Consumption.date cs)"
    using assms(1) by (simp add: strict_sorted_iff)
  have s: "sorted (map Consumption.date cs)"
    using assms(1) by (simp add: strict_sorted_iff)
  have "\<forall>x \<in> set (map Consumption.date cs). x \<le> last (map Consumption.date cs)"
    using s by (blast intro: sorted_le_last)
  then show ?thesis using d assms(2) by (simp add: last_map)
qed

lemma update_meter_monotone:
  assumes nonneg: "\<forall>s e r. getEC s e = Inr r \<longrightarrow> (\<forall>c \<in> set r. 0 \<le> kWh c)"
    and cur: "meter_power d = Some cur" "fl cur = cur"
    and run: "updateTotalEnergyConsumption getEC now d = (c, d', evs)"
  shows "\<exists>cur'. meter_power d' = Some cur' \<and> cur \<le> cur' \<and> fl cur' = cur'"
proof (cases "lastFetchedHour d")
  case None
  then have "d' = d" using run by (simp add: updateTotalEnergyConsumption_def)
  then show ?thesis using cur by simp
next
  case (Some l)
  show ?thesis
  proof (cases "l = startOfHour now")
    case True
    then have "d' = d" using run Some by (simp add: updateTotalEnergyConsumption_def)
    then show ?thesis using cur by simp
  next
    case False
    show ?thesis
    proof (cases "getEC (startOfHour (plusHours 1 l)) (startOfHour now)")
      case (Inl err)
      then have "d' = d"
        using run Some False by (simp add: updateTotalEnergyConsumption_def Let_def)
      then show ?thesis using cur by simp
    next
      case (Inr inc)
      show ?thesis
      proof (cases "inc = []")
        case True
        then have "d' = d"
          using run Some False Inr by (simp add: updateTotalEnergyConsumption_def Let_def)
        then show ?thesis using cur by simp
      next
        case ne: False
        have "meter_power d' = Some (fl (cur + sumKwh inc))"
          using run update_folds[where getEC=getEC, OF Some False Inr ne] cur(1) by auto
        moreover have "0 \<le> sumKwh inc"
          using nonneg Inr by (intro sumKwh_nonneg) blast
        then have "cur \<le> fl (cur + sumKwh inc)"
          using cur(2) by (intro fl_add_nonneg)
        ultimately show ?thesis by (simp add: fl_idem)
      qed
    qed
  qed
qed

lemma pricing_keeps_meter:
  assumes "updatePricingInformation getPrices now d = (c, d', evs)"
  shows "meter_power d' = meter_power d \<and> lastFetchedHour d' = lastFetchedHour d"
  using assms
  by (auto simp add: updatePricingInformation_def Let_def
        split: sum.splits if_splits option.splits prod.splits)

section \<open>The pricing update\<close>

lemma triggers_simps:
  "triggers [] = []"
  "triggers (Triggered t # evs) = t # triggers evs"
  "triggers (Call_getEnergyConsumption a b # evs) = triggers evs"
  "triggers (Call_getPrices a b # evs) = triggers evs"
  "triggers (SetCapabilityValue c v # evs) = triggers evs"
  "triggers (LoggedError msg # evs) = triggers evs"
  "triggers (evs @ evs') = triggers evs @ triggers evs'"
  by (simp_all add: triggers_def)

lemma capabilitiesSet_simps:
  "capabilitiesSet [] = []"
  "capabilitiesSet (SetCapabilityValue c v # evs) = c # capabilitiesSet evs"
  "capabilitiesSet (Call_getEnergyConsumption a b # evs) = capabilitiesSet evs"
  "capabilitiesSet (Call_getPrices a b # evs) = capabilitiesSet evs"
  "capabilitiesSet (Triggered t # evs) = capabilitiesSet evs"
  "capabilitiesSet (LoggedError msg # evs) = capabilitiesSet evs"
  "capabilitiesSet (evs @ evs') = capabilitiesSet evs @ capabilitiesSet evs'"
  by (simp_all add: capabilitiesSet_def)

lemma find_Some_nonempty: "find p xs = Some x \<Longrightarrow> xs \<noteq> []"
  by (cases xs) simp_all

lemma getLowest_fresh:
  "cache_lowest Q = None \<Longrightarrow> values_arr Q \<noteq> []
     \<Longrightarrow> getLowest Q = (Num (Min (set (values_arr Q))),
                         Q\<lparr>cache_lowest := Some (Num (Min (set (values_arr Q))))\<rparr>)"
  by (simp add: getLowest_def Math_min_Min Let_def)

lemma getHighest_fresh:
  "cache_highest Q = None \<Longrightarrow> values_arr Q \<noteq> []
     \<Longrightarrow> getHighest Q = (Num (Max (set (values_arr Q))),
                          Q\<lparr>cache_highest := Some (Num (Max (set (values_arr Q))))\<rparr>)"
  by (simp add: getHighest_def Math_max_Max Let_def)

lemma updatePricingInformation_current:
  assumes got: "getPrices (startOfDay now) (startOfDay (plusDays 1 now)) = Inr ps"
    and cur: "find (\<lambda>p. Price.date p = startOfHour now) ps = Some current"
  shows "fst (updatePricingInformation getPrices now d) = Returned
       \<and> snd (snd (updatePricingInformation getPrices now d)) =
           [Call_getPrices (startOfDay now) (startOfDay (plusDays 1 now)),
            SetCapabilityValue CAPABILITY_PRICE_CURRENT (toFixed2 (Num (netPrice current))),
            SetCapabilityValue CAPABILITY_PRICE_HIGHEST (toFixed2 (Num (Max (set (map netPrice ps))))),
            SetCapabilityValue CAPABILITY_PRICE_LOWEST (toFixed2 (Num (Min (set (map netPrice ps))))),
            Triggered priceBelowAverageTrigger, Triggered priceAboveAverageTrigger,
            Triggered priceAtLowestTrigger, Triggered priceAtHighestTrigger,
            Triggered priceBelowAverageTodayTrigger, Triggered priceAboveAverageTodayTrigger,
            Triggered priceAmongLowestTrigger, Triggered priceAmongHighestTrigger]
           @ (if isPriceAtLowest (netPrice current) (Num (Min (set (map netPrice ps))))
              then [Triggered priceAtLowestTodayTrigger] else [])
           @ (if isPriceAtHighest (netPrice current) (Num (Max (set (map netPrice ps))))
              then [Triggered priceAtHighestTodayTrigger] else [])"
proof -
  have ne: "ps \<noteq> []" using cur by (rule find_Some_nonempty)
  let ?P = "\<lparr>prices = ps, values_arr = map netPrice ps,
              cache_lowest = None, cache_highest = None, cache_average = None\<rparr>"
  have new: "new_Prices ps = Inr ?P" using ne by (simp add: new_Prices_def)
  have at: "getPriceAtInstant ?P now = Some current"
    using cur by (simp add: getPriceAtInstant_def)
  show ?thesis
    unfolding updatePricingInformation_def Let_def
    using ne by (simp add: got new at getHighest_fresh getLowest_fresh)
qed

section \<open>Properties\<close>

subsection \<open>Filtering by time of day\<close>

text \<open>
  C10. \<^verbatim>\<open>getPricesBetweenTimes\<close> throws, rather than returning an empty series, whenever no
  point of the series has its minute of the day inside the requested window (a window
  whose start lies after its end wraps past midnight): the filtered array is empty, and the
  constructor rejects it. The series itself may well be non-empty, as in the example.
\<close>

theorem getPricesBetweenTimes_empty_window:
  assumes "\<forall>p \<in> set (prices P).
             \<not> (if hours start * 60 + minutes start > hours end' * 60 + minutes end'
                then (Price.date p div 60000) mod 1440 \<ge> hours start * 60 + minutes start
                     \<or> (Price.date p div 60000) mod 1440 \<le> hours end' * 60 + minutes end'
                else (Price.date p div 60000) mod 1440 \<ge> hours start * 60 + minutes start
                     \<and> (Price.date p div 60000) mod 1440 \<le> hours end' * 60 + minutes end')"
  shows "getPricesBetweenTimes P start end'
           = Inl (Error ''Prices constructor requires a non-empty array'')"
proof -
  have "\<forall>p \<in> set (prices P). \<not> withinTimes start end' p"
    unfolding withinTimes_def Let_def minute_of_day using assms by blast
  then have "filter (withinTimes start end') (prices P) = []"
    by (simp add: filter_empty_conv)
  then show ?thesis
    by (simp add: getPricesBetweenTimes_def new_Prices_empty)
qed

theorem getPricesBetweenTimes_empty_window_witness:
  "new_Prices [\<lparr>Price.date = 36000000, netPrice = 10\<rparr>, \<lparr>Price.date = 39600000, netPrice = 12\<rparr>]
     = Inr morningSeries
   \<and> getPricesBetweenTimes morningSeries \<lparr>hours = 12, minutes = 0\<rparr> \<lparr>hours = 13, minutes = 30\<rparr>
     = Inl (Error ''Prices constructor requires a non-empty array'')"
proof -
  have outside: "\<forall>p \<in> set (prices morningSeries).
             \<not> (if hours \<lparr>hours = 12, minutes = 0\<rparr> * 60 + minutes \<lparr>hours = 12, minutes = 0\<rparr>
                     > hours \<lparr>hours = 13, minutes = 30\<rparr> * 60 + minutes \<lparr>hours = 13, minutes = 30\<rparr>
                then (Price.date p div 60000) mod 1440
                       \<ge> hours \<lparr>hours = 12, minutes = 0\<rparr> * 60 + minutes \<lparr>hours = 12, minutes = 0\<rparr>
                     \<or> (Price.date p div 60000) mod 1440
                       \<le> hours \<lparr>hours = 13, minutes = 30\<rparr> * 60 + minutes \<lparr>hours = 13, minutes = 30\<rparr>
                else (Price.date p div 60000) mod 1440
                       \<ge> hours \<lparr>hours = 12, minutes = 0\<rparr> * 60 + minutes \<lparr>hours = 12, minutes = 0\<rparr>
                     \<and> (Price.date p div 60000) mod 1440
                       \<le> hours \<lparr>hours = 13, minutes = 30\<rparr> * 60 + minutes \<lparr>hours = 13, minutes = 30\<rparr>)"
    by (simp add: morningSeries_def)
  have "new_Prices [\<lparr>Price.date = 36000000, netPrice = 10\<rparr>, \<lparr>Price.date = 39600000, netPrice = 12\<rparr>]
          = Inr morningSeries"
    by (simp add: morningSeries_def new_Prices_def)
  then show ?thesis
    using getPricesBetweenTimes_empty_window [OF outside] by simp
qed

subsection \<open>Ranking\<close>

text \<open>
  C9. For a constructed series and every \<open>n \<ge> 1\<close>, \<^verbatim>\<open>getNLowest(n)\<close> returns a new series
  wrapping the first \<open>min n length\<close> points of a sorted copy \<open>S\<close> of the points: a
  permutation of them, ascending by net price, in which points of equal net price keep
  their relative order. \<^verbatim>\<open>getNHighest(n)\<close> does the same with a copy \<open>S'\<close> descending by net
  price. The series the method was called on still wraps the original points.
\<close>

theorem getNLowest_getNHighest_stable_prefix:
  assumes "new_Prices ps = Inr P" and "1 \<le> n"
  shows "\<exists>L H S S'.
           getNLowest P n = Inr L \<and> getNHighest P n = Inr H
           \<and> prices L = take (min (nat n) (length ps)) S \<and> values_arr L = map netPrice (prices L)
           \<and> mset S = mset ps \<and> sorted (map netPrice S)
           \<and> (\<forall>k. filter (\<lambda>p. netPrice p = k) S = filter (\<lambda>p. netPrice p = k) ps)
           \<and> prices H = take (min (nat n) (length ps)) S' \<and> values_arr H = map netPrice (prices H)
           \<and> mset S' = mset ps \<and> sorted (rev (map netPrice S'))
           \<and> (\<forall>k. filter (\<lambda>p. netPrice p = k) S' = filter (\<lambda>p. netPrice p = k) ps)
           \<and> prices P = ps"
proof -
  let ?S = "sort_key netPrice ps" and ?S' = "sort_key (\<lambda>p. - netPrice p) ps"
  have ps: "ps \<noteq> []" and P: "prices P = ps"
    using assms(1) by (simp_all add: new_Prices_Inr)
  have n: "0 \<le> n" "0 < nat n" using assms(2) by simp_all
  have "length ?S = length ps" "length ?S' = length ps" by simp_all
  then have "?S \<noteq> []" "?S' \<noteq> []" using ps by force+
  then have takeS: "take (nat n) ?S \<noteq> []" and takeS': "take (nat n) ?S' \<noteq> []"
    using n(2) by simp_all
  have cut: "take (min (nat n) (length ps)) ?S = take (nat n) ?S"
            "take (min (nat n) (length ps)) ?S' = take (nat n) ?S'"
    by (simp_all add: min_def)
  obtain L where L: "new_Prices (take (nat n) ?S) = Inr L" "prices L = take (nat n) ?S"
      "values_arr L = map netPrice (take (nat n) ?S)"
    using new_Prices_nonempty[OF takeS] by blast
  obtain H where H: "new_Prices (take (nat n) ?S') = Inr H" "prices H = take (nat n) ?S'"
      "values_arr H = map netPrice (take (nat n) ?S')"
    using new_Prices_nonempty[OF takeS'] by blast
  have low: "getNLowest P n = Inr L"
    using L(1) n(1) by (simp add: getNLowest_def sortBy_ascending slice_0 P)
  have high: "getNHighest P n = Inr H"
    using H(1) n(1) by (simp add: getNHighest_def sortBy_descending slice_0 P)
  have "getNLowest P n = Inr L \<and> getNHighest P n = Inr H
           \<and> prices L = take (min (nat n) (length ps)) ?S \<and> values_arr L = map netPrice (prices L)
           \<and> mset ?S = mset ps \<and> sorted (map netPrice ?S)
           \<and> (\<forall>k. filter (\<lambda>p. netPrice p = k) ?S = filter (\<lambda>p. netPrice p = k) ps)
           \<and> prices H = take (min (nat n) (length ps)) ?S' \<and> values_arr H = map netPrice (prices H)
           \<and> mset ?S' = mset ps \<and> sorted (rev (map netPrice ?S'))
           \<and> (\<forall>k. filter (\<lambda>p. netPrice p = k) ?S' = filter (\<lambda>p. netPrice p = k) ps)
           \<and> prices P = ps"
    using low high L(2,3) H(2,3) P cut
    by (simp add: sort_key_stable sort_key_desc_stable sort_key_desc_sorted)
  then show ?thesis by blast
qed

theorem getNLowest_getNHighest_stable_prefix_witness:
  "new_Prices tiedSeries = Inr tiedPrices \<and> (1::int) \<le> 3
   \<and> (\<exists>L H S S'.
           getNLowest tiedPrices 3 = Inr L \<and> getNHighest tiedPrices 3 = Inr H
           \<and> prices L = take (min (nat 3) (length tiedSeries)) S \<and> values_arr L = map netPrice (prices L)
           \<and> mset S = mset tiedSeries \<and> sorted (map netPrice S)
           \<and> (\<forall>k. filter (\<lambda>p. netPrice p = k) S = filter (\<lambda>p. netPrice p = k) tiedSeries)
           \<and> prices H = take (min (nat 3) (length tiedSeries)) S' \<and> values_arr H = map netPrice (prices H)
           \<and> mset S' = mset tiedSeries \<and> sorted (rev (map netPrice S'))
           \<and> (\<forall>k. filter (\<lambda>p. netPrice p = k) S' = filter (\<lambda>p. netPrice p = k) tiedSeries)
           \<and> prices tiedPrices = tiedSeries)
   \<and> getNLowest tiedPrices 3
       = Inr \<lparr>prices = [\<lparr>Price.date = 3600000, netPrice = 3\<rparr>, \<lparr>Price.date = 10800000, netPrice = 3\<rparr>,
                        \<lparr>Price.date = 0, netPrice = 5\<rparr>],
              values_arr = [3, 3, 5],
              cache_lowest = None, cache_highest = None, cache_average = None\<rparr>
   \<and> getNHighest tiedPrices 3
       = Inr \<lparr>prices = [\<lparr>Price.date = 0, netPrice = 5\<rparr>, \<lparr>Price.date = 7200000, netPrice = 5\<rparr>,
                        \<lparr>Price.date = 3600000, netPrice = 3\<rparr>],
              values_arr = [5, 5, 3],
              cache_lowest = None, cache_highest = None, cache_average = None\<rparr>"
proof -
  have 1: "new_Prices tiedSeries = Inr tiedPrices"
    by (simp add: new_Prices_def tiedSeries_def tiedPrices_def)
  have 2: "(1::int) \<le> 3" by simp
  have 3: "getNLowest tiedPrices 3
       = Inr \<lparr>prices = [\<lparr>Price.date = 3600000, netPrice = 3\<rparr>, \<lparr>Price.date = 10800000, netPrice = 3\<rparr>,
                        \<lparr>Price.date = 0, netPrice = 5\<rparr>],
              values_arr = [3, 3, 5],
              cache_lowest = None, cache_highest = None, cache_average = None\<rparr>"
    unfolding tiedPrices_def tiedSeries_def by code_simp
  have 4: "getNHighest tiedPrices 3
       = Inr \<lparr>prices = [\<lparr>Price.date = 0, netPrice = 5\<rparr>, \<lparr>Price.date = 7200000, netPrice = 5\<rparr>,
                        \<lparr>Price.date = 3600000, netPrice = 3\<rparr>],
              values_arr = [5, 5, 3],
              cache_lowest = None, cache_highest = None, cache_average = None\<rparr>"
    unfolding tiedPrices_def tiedSeries_def by code_simp
  show ?thesis
    using 1 2 3 4 getNLowest_getNHighest_stable_prefix[OF 1 2] by blast
qed

subsection \<open>Lowest, average, highest\<close>





subsection \<open>The window of the next hours\<close>

text \<open>
  C1. \<^verbatim>\<open>getPricesForNextNHours(t, hours)\<close> on the four hourly points from 00:00 to 03:00,
  at 02:05 and for two hours. The point of 02:00 is found, at index 2, and two points lie
  from there on, which \<^verbatim>\<open>slice(index, index + hours)\<close> would give. The method cuts
  \<^verbatim>\<open>slice(index, hours)\<close>, which is empty here, and the constructor throws.
\<close>

theorem getPricesForNextNHours_throws_on_match:
  "new_Prices fourHours = Inr fourHoursPrices
   \<and> getPriceAtInstant fourHoursPrices 7500000 = Some \<lparr>Price.date = 7200000, netPrice = 10\<rparr>
   \<and> findIndex (\<lambda>price. Price.date price = startOfHour 7500000) (prices fourHoursPrices) = 2
   \<and> slice (prices fourHoursPrices) 2 2 = []
   \<and> slice (prices fourHoursPrices) 2 (2 + 2)
       = [\<lparr>Price.date = 7200000, netPrice = 10\<rparr>, \<lparr>Price.date = 10800000, netPrice = 40\<rparr>]
   \<and> getPricesForNextNHours fourHoursPrices 7500000 2
       = Inl (Error ''Prices constructor requires a non-empty array'')"
  by (simp add: new_Prices_def fourHours_def fourHoursPrices_def getPriceAtInstant_def
        getPricesForNextNHours_def startOfHour_def slice_def Let_def)

subsection \<open>Chunked consumption requests\<close>

text \<open>
  C3. Given that adding a year to an instant gives a later instant, and that a difference of
  more than a year means the end lies after the start: \<^verbatim>\<open>getEnergyConsumption\<close> issues the
  single request for the whole range when the difference in years is at most 1. Otherwise
  it returns having issued at least one request; the first starts at the overall start, each
  ends at the earlier of a year after its start and the overall end, each next one starts
  where the previous ended, none is empty or longer than a year, and all but the last
  succeeded. If the call returns, the last request ended at the overall end and the result
  is the concatenation of the responses in order; if it throws, it throws the error of the
  last request, which is where the loop stopped. A range of more than two and at most three
  years whose first two requests succeed is fetched in exactly three requests. In a zone of
  offset zero the range from 2023-01-01T00:00 to 2024-07-01T00:00 is fetched in exactly the
  two requests from 2023-01-01 to 2024-01-01 and from 2024-01-01 to 2024-07-01, when the
  first succeeds.
\<close>

theorem getEnergyConsumption_chunking:
  assumes progress: "\<And>t. t < plusYear t"
    and later: "1 < diffYears endDate startDate \<Longrightarrow> startDate < endDate"
  shows
    "(diffYears endDate startDate \<le> 1 \<longrightarrow>
        getEnergyConsumption plusYear diffYears fetchChunk startDate endDate
          = Some ([(startDate, endDate)], fetchChunk startDate endDate))
     \<and> (1 < diffYears endDate startDate \<longrightarrow>
          (\<exists>calls r.
              getEnergyConsumption plusYear diffYears fetchChunk startDate endDate = Some (calls, r)
              \<and> calls \<noteq> [] \<and> consecutiveChunks plusYear startDate endDate calls
              \<and> (\<forall>(a, b) \<in> set calls. a < b \<and> b \<le> plusYear a \<and> b \<le> endDate)
              \<and> (\<forall>(a, b) \<in> set (butlast calls). \<exists>c. fetchChunk a b = Inr c)
              \<and> (case r of
                    Inl err \<Rightarrow> fetchChunk (fst (last calls)) (snd (last calls)) = Inl err
                  | Inr res \<Rightarrow> snd (last calls) = endDate \<and> concatChunks fetchChunk calls = Inr res)
              \<and> (plusYear (plusYear startDate) < endDate
                    \<and> endDate \<le> plusYear (plusYear (plusYear startDate))
                    \<and> (\<exists>c. fetchChunk startDate (plusYear startDate) = Inr c)
                    \<and> (\<exists>c. fetchChunk (plusYear startDate) (plusYear (plusYear startDate)) = Inr c)
                  \<longrightarrow> calls = [(startDate, plusYear startDate),
                               (plusYear startDate, plusYear (plusYear startDate)),
                               (plusYear (plusYear startDate), endDate)])))
     \<and> ((\<exists>c. fetchChunk 1672531200000 1704067200000 = Inr c) \<longrightarrow>
          (\<exists>r. getEnergyConsumption (plus_years 1) diff_years fetchChunk 1672531200000 1719792000000
                 = Some ([(1672531200000, 1704067200000), (1704067200000, 1719792000000)], r)))"
proof (intro conjI impI)
  assume "diffYears endDate startDate \<le> 1"
  then show "getEnergyConsumption plusYear diffYears fetchChunk startDate endDate
          = Some ([(startDate, endDate)], fetchChunk startDate endDate)"
    by (simp add: getEnergyConsumption_def)
next
  assume d: "1 < diffYears endDate startDate"
  then have lt: "startDate < endDate" by (rule later)
  from chunkLoop_runs[of plusYear fetchChunk endDate startDate "[]" "[]", OF progress]
  obtain calls r where
    run: "chunkLoop plusYear fetchChunk endDate startDate [] [] = Some (calls, r)"
    and cons: "consecutiveChunks plusYear startDate endDate calls"
    and len: "\<forall>(a, b) \<in> set calls. a < b \<and> b \<le> plusYear a \<and> b \<le> endDate"
    and ok: "\<forall>(a, b) \<in> set (butlast calls). \<exists>c. fetchChunk a b = Inr c"
    and res: "case r of
                 Inl err \<Rightarrow> calls \<noteq> [] \<and> fetchChunk (fst (last calls)) (snd (last calls)) = Inl err
               | Inr res \<Rightarrow>
                   (\<exists>rest. concatChunks fetchChunk calls = Inr rest \<and> res = [] @ rest)
                   \<and> (if startDate < endDate then calls \<noteq> [] \<and> snd (last calls) = endDate
                       else calls = [])"
    by auto
  have ne: "calls \<noteq> []" using res lt by (cases r) auto
  have fin: "case r of
                Inl err \<Rightarrow> fetchChunk (fst (last calls)) (snd (last calls)) = Inl err
              | Inr res \<Rightarrow> snd (last calls) = endDate \<and> concatChunks fetchChunk calls = Inr res"
    using res lt by (cases r) auto
  have get: "getEnergyConsumption plusYear diffYears fetchChunk startDate endDate = Some (calls, r)"
    using d run by (simp add: getEnergyConsumption_def)
  have three: "plusYear (plusYear startDate) < endDate
                    \<and> endDate \<le> plusYear (plusYear (plusYear startDate))
                    \<and> (\<exists>c. fetchChunk startDate (plusYear startDate) = Inr c)
                    \<and> (\<exists>c. fetchChunk (plusYear startDate) (plusYear (plusYear startDate)) = Inr c)
                  \<longrightarrow> calls = [(startDate, plusYear startDate),
                               (plusYear startDate, plusYear (plusYear startDate)),
                               (plusYear (plusYear startDate), endDate)]"
    using three_chunks[OF cons ne len fin _ _ progress progress] by blast
  show "\<exists>calls r.
              getEnergyConsumption plusYear diffYears fetchChunk startDate endDate = Some (calls, r)
              \<and> calls \<noteq> [] \<and> consecutiveChunks plusYear startDate endDate calls
              \<and> (\<forall>(a, b) \<in> set calls. a < b \<and> b \<le> plusYear a \<and> b \<le> endDate)
              \<and> (\<forall>(a, b) \<in> set (butlast calls). \<exists>c. fetchChunk a b = Inr c)
              \<and> (case r of
                    Inl err \<Rightarrow> fetchChunk (fst (last calls)) (snd (last calls)) = Inl err
                  | Inr res \<Rightarrow> snd (last calls) = endDate \<and> concatChunks fetchChunk calls = Inr res)
              \<and> (plusYear (plusYear startDate) < endDate
                    \<and> endDate \<le> plusYear (plusYear (plusYear startDate))
                    \<and> (\<exists>c. fetchChunk startDate (plusYear startDate) = Inr c)
                    \<and> (\<exists>c. fetchChunk (plusYear startDate) (plusYear (plusYear startDate)) = Inr c)
                  \<longrightarrow> calls = [(startDate, plusYear startDate),
                               (plusYear startDate, plusYear (plusYear startDate)),
                               (plusYear (plusYear startDate), endDate)])"
    using get ne cons len ok fin three by blast
next
  assume ok1: "\<exists>c. fetchChunk 1672531200000 1704067200000 = Inr c"
  let ?s = "1672531200000 :: int" and ?e = "1719792000000 :: int"
  have y1: "plus_years 1 ?s = 1704067200000" by code_simp
  have y2: "plus_years 1 1704067200000 = 1735689600000" by code_simp
  have d: "1 < diff_years ?e ?s" by code_simp
  from chunkLoop_runs[of "plus_years 1" fetchChunk ?e ?s "[]" "[]", OF plus_years_progress]
  obtain calls r where
    run: "chunkLoop (plus_years 1) fetchChunk ?e ?s [] [] = Some (calls, r)"
    and cons: "consecutiveChunks (plus_years 1) ?s ?e calls"
    and len: "\<forall>(a, b) \<in> set calls. a < b \<and> b \<le> plus_years 1 a \<and> b \<le> ?e"
    and res: "case r of
                 Inl err \<Rightarrow> calls \<noteq> [] \<and> fetchChunk (fst (last calls)) (snd (last calls)) = Inl err
               | Inr res \<Rightarrow>
                   (\<exists>rest. concatChunks fetchChunk calls = Inr rest \<and> res = [] @ rest)
                   \<and> (if ?s < ?e then calls \<noteq> [] \<and> snd (last calls) = ?e else calls = [])"
    by auto
  have ne: "calls \<noteq> []" using res by (cases r) auto
  have fin: "case r of
                Inl err \<Rightarrow> fetchChunk (fst (last calls)) (snd (last calls)) = Inl err
              | Inr res \<Rightarrow> snd (last calls) = ?e \<and> concatChunks fetchChunk calls = Inr res"
    using res by (cases r) auto
  have "calls = [(?s, plus_years 1 ?s), (plus_years 1 ?s, ?e)]"
    using ok1 by (intro two_chunks[OF cons ne len fin]) (simp_all add: y1 y2)
  then have "calls = [(1672531200000, 1704067200000), (1704067200000, 1719792000000)]"
    by (simp add: y1)
  then show "\<exists>r. getEnergyConsumption (plus_years 1) diff_years fetchChunk 1672531200000 1719792000000
                 = Some ([(1672531200000, 1704067200000), (1704067200000, 1719792000000)], r)"
    using d run by (simp add: getEnergyConsumption_def)
qed

theorem getEnergyConsumption_chunking_witness:
  "1 < diff_years 1688169600000 1609459200000
   \<and> (1609459200000 :: int) < 1688169600000
   \<and> plus_years 1 1609459200000 = 1640995200000
   \<and> plus_years 1 1640995200000 = 1672531200000
   \<and> getEnergyConsumption (plus_years 1) diff_years hourlyStub 1609459200000 1688169600000
       = Some ([(1609459200000, 1640995200000), (1640995200000, 1672531200000),
                (1672531200000, 1688169600000)],
               Inr [\<lparr>Consumption.date = 1609459200000, kWh = 1\<rparr>,
                    \<lparr>Consumption.date = 1640995200000, kWh = 1\<rparr>,
                    \<lparr>Consumption.date = 1672531200000, kWh = 1\<rparr>])"
proof -
  let ?s = "1609459200000 :: int" and ?e = "1688169600000 :: int"
  have d: "1 < diff_years ?e ?s" by code_simp
  have lt: "?s < ?e" by simp
  have y1: "plus_years 1 ?s = 1640995200000" by code_simp
  have y2: "plus_years 1 1640995200000 = 1672531200000" by code_simp
  have y3: "plus_years 1 1672531200000 = 1704067200000" by code_simp
  from getEnergyConsumption_chunking[of "plus_years 1" diff_years ?e ?s hourlyStub,
         OF plus_years_progress lt] d
  obtain calls r where
    get: "getEnergyConsumption (plus_years 1) diff_years hourlyStub ?s ?e = Some (calls, r)"
    and fin: "case r of
                Inl err \<Rightarrow> hourlyStub (fst (last calls)) (snd (last calls)) = Inl err
              | Inr res \<Rightarrow> snd (last calls) = ?e \<and> concatChunks hourlyStub calls = Inr res"
    and three: "plus_years 1 (plus_years 1 ?s) < ?e
                    \<and> ?e \<le> plus_years 1 (plus_years 1 (plus_years 1 ?s))
                    \<and> (\<exists>c. hourlyStub ?s (plus_years 1 ?s) = Inr c)
                    \<and> (\<exists>c. hourlyStub (plus_years 1 ?s) (plus_years 1 (plus_years 1 ?s)) = Inr c)
                  \<longrightarrow> calls = [(?s, plus_years 1 ?s),
                               (plus_years 1 ?s, plus_years 1 (plus_years 1 ?s)),
                               (plus_years 1 (plus_years 1 ?s), ?e)]"
    by blast
  have calls: "calls = [(?s, 1640995200000), (1640995200000, 1672531200000), (1672531200000, ?e)]"
    using three by (simp add: y1 y2 y3 hourlyStub_def)
  have "r = Inr [\<lparr>Consumption.date = 1609459200000, kWh = 1\<rparr>,
                    \<lparr>Consumption.date = 1640995200000, kWh = 1\<rparr>,
                    \<lparr>Consumption.date = 1672531200000, kWh = 1\<rparr>]"
    using fin unfolding calls by (cases r) (simp_all add: hourlyStub_def)
  then show ?thesis
    using d y1 y2 get calls by simp
qed

subsection \<open>Top-ups within one hour\<close>

text \<open>
  C2, as amended. \<^verbatim>\<open>updateTotalEnergyConsumption\<close> returns without fetching, and leaves the
  device as it is, whenever \<^verbatim>\<open>lastFetchedHour\<close> equals the current time truncated to the
  hour; a fetch that returns no points likewise leaves the meter and \<^verbatim>\<open>lastFetchedHour\<close> as
  they are. So the second of two consecutive top-ups in the same hour changes nothing when
  the first left \<^verbatim>\<open>lastFetchedHour\<close> at the current hour or when its own fetch returns no
  points. It is not so in general: a top-up sets \<^verbatim>\<open>lastFetchedHour\<close> to the hour of the last
  point it fetched, not to the current hour, and in the counterexample the second top-up of
  the same hour fetches a point and adds it, so that the meter changes twice.
\<close>

theorem updateTotalEnergyConsumption_same_hour_noop:
  "(lastFetchedHour d = Some (startOfHour now)
      \<longrightarrow> updateTotalEnergyConsumption getEC now d = (Returned, d, []))
   \<and> (lastFetchedHour d = Some l \<and> l \<noteq> startOfHour now
        \<and> getEC (startOfHour (plusHours 1 l)) (startOfHour now) = Inr []
      \<longrightarrow> updateTotalEnergyConsumption getEC now d
            = (Returned, d,
               [Call_getEnergyConsumption (startOfHour (plusHours 1 l)) (startOfHour now)]))
   \<and> (startOfHour now' = startOfHour now
        \<and> updateTotalEnergyConsumption getEC now d = (c1, d1, evs1)
        \<and> (lastFetchedHour d1 = Some (startOfHour now)
             \<or> (\<exists>l1. lastFetchedHour d1 = Some l1
                     \<and> getEC' (startOfHour (plusHours 1 l1)) (startOfHour now') = Inr []))
      \<longrightarrow> (\<exists>evs2. updateTotalEnergyConsumption getEC' now' d1 = (Returned, d1, evs2)))"
proof (intro conjI impI)
  assume "lastFetchedHour d = Some (startOfHour now)"
  then show "updateTotalEnergyConsumption getEC now d = (Returned, d, [])"
    by (rule update_same_hour)
next
  assume "lastFetchedHour d = Some l \<and> l \<noteq> startOfHour now
        \<and> getEC (startOfHour (plusHours 1 l)) (startOfHour now) = Inr []"
  then show "updateTotalEnergyConsumption getEC now d
            = (Returned, d,
               [Call_getEnergyConsumption (startOfHour (plusHours 1 l)) (startOfHour now)])"
    by (simp add: update_empty)
next
  assume a: "startOfHour now' = startOfHour now
        \<and> updateTotalEnergyConsumption getEC now d = (c1, d1, evs1)
        \<and> (lastFetchedHour d1 = Some (startOfHour now)
             \<or> (\<exists>l1. lastFetchedHour d1 = Some l1
                     \<and> getEC' (startOfHour (plusHours 1 l1)) (startOfHour now') = Inr []))"
  then consider "lastFetchedHour d1 = Some (startOfHour now')"
    | l1 where "lastFetchedHour d1 = Some l1" "l1 \<noteq> startOfHour now'"
        "getEC' (startOfHour (plusHours 1 l1)) (startOfHour now') = Inr []"
    by (cases "lastFetchedHour d1 = Some (startOfHour now')") auto
  then show "\<exists>evs2. updateTotalEnergyConsumption getEC' now' d1 = (Returned, d1, evs2)"
  proof cases
    case 1
    then show ?thesis using update_same_hour by blast
  next
    case 2
    then show ?thesis using update_empty by blast
  qed
qed

theorem updateTotalEnergyConsumption_twice_counterexample:
  "startOfHour 45000000 = startOfHour 44100000
   \<and> meter_power meterDevice = Some 10
   \<and> meter_power (fst (snd (updateTotalEnergyConsumption hourlyStub 44100000 meterDevice))) = Some 11
   \<and> meter_power (fst (snd (updateTotalEnergyConsumption hourlyStub 45000000
        (fst (snd (updateTotalEnergyConsumption hourlyStub 44100000 meterDevice)))))) = Some 12"
  unfolding meterDevice_def hourlyStub_def by code_simp

theorem updateTotalEnergyConsumption_same_hour_noop_witness:
  "lastFetchedHour noonDevice = Some (startOfHour 44100000)
   \<and> updateTotalEnergyConsumption hourlyStub 44100000 noonDevice = (Returned, noonDevice, [])
   \<and> lastFetchedHour meterDevice = Some 36000000 \<and> (36000000 :: int) \<noteq> startOfHour 44100000
   \<and> emptyStub (startOfHour (plusHours 1 36000000)) (startOfHour 44100000) = Inr []
   \<and> updateTotalEnergyConsumption emptyStub 44100000 meterDevice
       = (Returned, meterDevice,
          [Call_getEnergyConsumption (startOfHour (plusHours 1 36000000)) (startOfHour 44100000)])
   \<and> startOfHour 45000000 = startOfHour 44100000
   \<and> (\<exists>evs2. updateTotalEnergyConsumption emptyStub 45000000 noonDevice = (Returned, noonDevice, evs2))"
proof -
  have h1: "lastFetchedHour noonDevice = Some (startOfHour 44100000)"
    by (simp add: noonDevice_def meterDevice_def startOfHour_def)
  have h2: "lastFetchedHour meterDevice = Some 36000000 \<and> (36000000 :: int) \<noteq> startOfHour 44100000
        \<and> emptyStub (startOfHour (plusHours 1 36000000)) (startOfHour 44100000) = Inr []"
    by (simp add: meterDevice_def startOfHour_def emptyStub_def)
  have h3: "startOfHour 45000000 = startOfHour 44100000" by (simp add: startOfHour_def)
  note noop = updateTotalEnergyConsumption_same_hour_noop
  have a: "updateTotalEnergyConsumption hourlyStub 44100000 noonDevice = (Returned, noonDevice, [])"
    using noop[where d=noonDevice and now=44100000 and getEC=hourlyStub] h1 by blast
  have b: "updateTotalEnergyConsumption emptyStub 44100000 meterDevice
       = (Returned, meterDevice,
          [Call_getEnergyConsumption (startOfHour (plusHours 1 36000000)) (startOfHour 44100000)])"
    using noop[where d=meterDevice and now=44100000 and l=36000000 and getEC=emptyStub] h2 by blast
  have c: "\<exists>evs2. updateTotalEnergyConsumption emptyStub 45000000 noonDevice = (Returned, noonDevice, evs2)"
    using noop[where d=noonDevice and now=44100000 and getEC=hourlyStub and now'=45000000
                and ?c1.0=Returned and ?d1.0=noonDevice and ?evs1.0="[]" and getEC'=emptyStub] h1 h3 a
    by blast
  show ?thesis using h1 h2 h3 a b c by blast
qed

subsection \<open>The cumulative meter\<close>

text \<open>
  C4, as amended. Backfill sets the meter to the sum of all historical deltas, which is not
  negative when no delta is, and \<^verbatim>\<open>lastFetchedHour\<close> to the hour of the last point. A top-up
  that fetches points sets the meter to the re-read current value plus the sum of the
  fetched deltas and \<^verbatim>\<open>lastFetchedHour\<close> to the hour of the last fetched point. When the
  deltas the upstream returns are not negative, the meter after a top-up is never below the
  meter before it, however the top-up ends. When the upstream returns the points in
  ascending order of their hours and none before the requested start, every point a top-up
  adds lies after the hour last fetched and not after the hour it records as last fetched,
  and no hour occurs twice among them: no hour is added twice. The pricing update leaves the
  meter and \<^verbatim>\<open>lastFetchedHour\<close> alone. Without these conditions on the upstream the claim
  fails: a negative delta lowers the meter, and a response that repeats the hour already
  fetched is added again.
\<close>

theorem meter_grows_by_fetched_deltas:
  "(getEC (startOfDay (contract_startDate d)) (startOfHour now) = Inr h \<and> h \<noteq> [] \<longrightarrow>
      (\<exists>d0 evs0. initializeTotalUsage getEC now d = (Returned, d0, evs0)
          \<and> meter_power d0 = Some (sumKwh h)
          \<and> lastFetchedHour d0 = Some (Consumption.date (last h))
          \<and> fl (sumKwh h) = sumKwh h
          \<and> ((\<forall>c \<in> set h. 0 \<le> kWh c) \<longrightarrow> 0 \<le> sumKwh h)
          \<and> (sorted_wrt (<) (map Consumption.date h) \<longrightarrow>
                distinct (map Consumption.date h)
                \<and> (\<forall>c \<in> set h. Consumption.date c \<le> Consumption.date (last h)))))
   \<and> (lastFetchedHour d = Some l \<and> l \<noteq> startOfHour now
        \<and> getEC (startOfHour (plusHours 1 l)) (startOfHour now) = Inr inc \<and> inc \<noteq> [] \<longrightarrow>
      (\<exists>d1 evs1. updateTotalEnergyConsumption getEC now d = (Returned, d1, evs1)
          \<and> meter_power d1
              = Some (fl ((case meter_power d of None \<Rightarrow> 0 | Some v \<Rightarrow> v) + sumKwh inc))
          \<and> lastFetchedHour d1 = Some (Consumption.date (last inc))
          \<and> (sorted_wrt (<) (map Consumption.date inc)
                \<and> (\<forall>c \<in> set inc. startOfHour (plusHours 1 l) \<le> Consumption.date c) \<longrightarrow>
                distinct (map Consumption.date inc)
                \<and> (\<forall>c \<in> set inc. l < Consumption.date c
                                   \<and> Consumption.date c \<le> Consumption.date (last inc)))))
   \<and> ((\<forall>s e r. getEC s e = Inr r \<longrightarrow> (\<forall>c \<in> set r. 0 \<le> kWh c))
        \<and> meter_power d = Some cur \<and> fl cur = cur
        \<and> updateTotalEnergyConsumption getEC now d = (c, d', evs) \<longrightarrow>
      (\<exists>cur'. meter_power d' = Some cur' \<and> cur \<le> cur' \<and> fl cur' = cur'))
   \<and> (updatePricingInformation getPrices now d = (c, d', evs) \<longrightarrow>
        meter_power d' = meter_power d \<and> lastFetchedHour d' = lastFetchedHour d)"
proof (intro conjI impI)
  assume a: "getEC (startOfDay (contract_startDate d)) (startOfHour now) = Inr h \<and> h \<noteq> []"
  then have run: "initializeTotalUsage getEC now d
           = (Returned,
              d\<lparr>meter_power := Some (sumKwh h),
                lastFetchedHour := Some (Consumption.date (last h))\<rparr>,
              [Call_getEnergyConsumption (startOfDay (contract_startDate d)) (startOfHour now),
               SetCapabilityValue CAPABILITY_IMPORTED_POWER (Num (sumKwh h))])"
    by (intro initialize_folds) simp_all
  have asc: "sorted_wrt (<) (map Consumption.date h) \<longrightarrow>
                distinct (map Consumption.date h)
                \<and> (\<forall>c \<in> set h. Consumption.date c \<le> Consumption.date (last h))"
    using a ascending_dates[of h] by blast
  show "\<exists>d0 evs0. initializeTotalUsage getEC now d = (Returned, d0, evs0)
          \<and> meter_power d0 = Some (sumKwh h)
          \<and> lastFetchedHour d0 = Some (Consumption.date (last h))
          \<and> fl (sumKwh h) = sumKwh h
          \<and> ((\<forall>c \<in> set h. 0 \<le> kWh c) \<longrightarrow> 0 \<le> sumKwh h)
          \<and> (sorted_wrt (<) (map Consumption.date h) \<longrightarrow>
                distinct (map Consumption.date h)
                \<and> (\<forall>c \<in> set h. Consumption.date c \<le> Consumption.date (last h)))"
    unfolding run using asc sumKwh_nonneg[of h] sumKwh_rounded[of h] by simp
next
  assume a: "lastFetchedHour d = Some l \<and> l \<noteq> startOfHour now
        \<and> getEC (startOfHour (plusHours 1 l)) (startOfHour now) = Inr inc \<and> inc \<noteq> []"
  then have run: "updateTotalEnergyConsumption getEC now d
           = (Returned,
              d\<lparr>meter_power := Some (fl ((case meter_power d of None \<Rightarrow> 0 | Some v \<Rightarrow> v) + sumKwh inc)),
                lastFetchedHour := Some (Consumption.date (last inc))\<rparr>,
              [Call_getEnergyConsumption (startOfHour (plusHours 1 l)) (startOfHour now),
               SetCapabilityValue CAPABILITY_IMPORTED_POWER
                 (Num (fl ((case meter_power d of None \<Rightarrow> 0 | Some v \<Rightarrow> v) + sumKwh inc)))])"
    by (intro update_folds) simp_all
  have asc: "sorted_wrt (<) (map Consumption.date inc)
                \<and> (\<forall>c \<in> set inc. startOfHour (plusHours 1 l) \<le> Consumption.date c) \<longrightarrow>
                distinct (map Consumption.date inc)
                \<and> (\<forall>c \<in> set inc. l < Consumption.date c
                                   \<and> Consumption.date c \<le> Consumption.date (last inc))"
  proof
    assume h: "sorted_wrt (<) (map Consumption.date inc)
                \<and> (\<forall>c \<in> set inc. startOfHour (plusHours 1 l) \<le> Consumption.date c)"
    have "\<forall>c \<in> set inc. l < Consumption.date c"
      using h startOfHour_next[of l] by fastforce
    then show "distinct (map Consumption.date inc)
                \<and> (\<forall>c \<in> set inc. l < Consumption.date c
                                   \<and> Consumption.date c \<le> Consumption.date (last inc))"
      using h a ascending_dates[of inc] by blast
  qed
  show "\<exists>d1 evs1. updateTotalEnergyConsumption getEC now d = (Returned, d1, evs1)
          \<and> meter_power d1
              = Some (fl ((case meter_power d of None \<Rightarrow> 0 | Some v \<Rightarrow> v) + sumKwh inc))
          \<and> lastFetchedHour d1 = Some (Consumption.date (last inc))
          \<and> (sorted_wrt (<) (map Consumption.date inc)
                \<and> (\<forall>c \<in> set inc. startOfHour (plusHours 1 l) \<le> Consumption.date c) \<longrightarrow>
                distinct (map Consumption.date inc)
                \<and> (\<forall>c \<in> set inc. l < Consumption.date c
                                   \<and> Consumption.date c \<le> Consumption.date (last inc)))"
    unfolding run using asc by simp
next
  assume "(\<forall>s e r. getEC s e = Inr r \<longrightarrow> (\<forall>c \<in> set r. 0 \<le> kWh c))
        \<and> meter_power d = Some cur \<and> fl cur = cur
        \<and> updateTotalEnergyConsumption getEC now d = (c, d', evs)"
  then show "\<exists>cur'. meter_power d' = Some cur' \<and> cur \<le> cur' \<and> fl cur' = cur'"
    using update_meter_monotone[of getEC d cur now c d' evs] by blast
next
  assume "updatePricingInformation getPrices now d = (c, d', evs)"
  then show "meter_power d' = meter_power d" "lastFetchedHour d' = lastFetchedHour d"
    using pricing_keeps_meter by blast+
qed

theorem meter_decreases_or_refolds_counterexample:
  "meter_power meterDevice = Some 10
   \<and> meter_power (fst (snd (updateTotalEnergyConsumption negativeStub 44100000 meterDevice))) = Some 7
   \<and> (7 :: rat) < 10
   \<and> fst (snd (initializeTotalUsage staleStub 37000000 freshDevice))
       = freshDevice\<lparr>meter_power := Some 5, lastFetchedHour := Some 36000000\<rparr>
   \<and> fst (snd (updateTotalEnergyConsumption staleStub 44100000
                  (freshDevice\<lparr>meter_power := Some 5, lastFetchedHour := Some 36000000\<rparr>)))
       = freshDevice\<lparr>meter_power := Some 10, lastFetchedHour := Some 36000000\<rparr>"
  unfolding meterDevice_def freshDevice_def negativeStub_def staleStub_def by code_simp

theorem meter_grows_by_fetched_deltas_witness:
  "historyStub (startOfDay (contract_startDate freshDevice)) (startOfHour 37000000)
     = Inr [\<lparr>Consumption.date = 32400000, kWh = 2\<rparr>, \<lparr>Consumption.date = 36000000, kWh = 3\<rparr>]
   \<and> (\<exists>d0 evs0. initializeTotalUsage historyStub 37000000 freshDevice = (Returned, d0, evs0)
          \<and> meter_power d0 = Some 5 \<and> lastFetchedHour d0 = Some 36000000)
   \<and> lastFetchedHour meterDevice = Some 36000000 \<and> (36000000 :: int) \<noteq> startOfHour 44100000
   \<and> hourlyStub (startOfHour (plusHours 1 36000000)) (startOfHour 44100000)
       = Inr [\<lparr>Consumption.date = 39600000, kWh = 1\<rparr>]
   \<and> (\<exists>d1 evs1. updateTotalEnergyConsumption hourlyStub 44100000 meterDevice = (Returned, d1, evs1)
          \<and> meter_power d1 = Some 11 \<and> lastFetchedHour d1 = Some 39600000)
   \<and> meter_power meterDevice = Some 10 \<and> fl 10 = 10
   \<and> (\<exists>cur'. meter_power (fst (snd (updateTotalEnergyConsumption hourlyStub 44100000 meterDevice)))
                 = Some cur' \<and> 10 \<le> cur' \<and> fl cur' = cur')
   \<and> meter_power (fst (snd (updatePricingInformation (\<lambda>s e. Inr []) 44100000 meterDevice)))
       = Some 10"
proof -
  let ?h = "[\<lparr>Consumption.date = 32400000, kWh = 2\<rparr>, \<lparr>Consumption.date = 36000000, kWh = 3\<rparr>]"
  let ?inc = "[\<lparr>Consumption.date = 39600000, kWh = 1\<rparr>]"
  have h0: "historyStub (startOfDay (contract_startDate freshDevice)) (startOfHour 37000000) = Inr ?h"
    by (simp add: historyStub_def)
  have s0: "sumKwh ?h = 5"
    unfolding sumKwh_def by code_simp
  have "\<exists>d0 evs0. initializeTotalUsage historyStub 37000000 freshDevice = (Returned, d0, evs0)
          \<and> meter_power d0 = Some (sumKwh ?h)
          \<and> lastFetchedHour d0 = Some (Consumption.date (last ?h))"
    using meter_grows_by_fetched_deltas[where getEC=historyStub and d=freshDevice
        and now=37000000 and h="?h", THEN conjunct1] h0
    by blast
  then have w0: "\<exists>d0 evs0. initializeTotalUsage historyStub 37000000 freshDevice = (Returned, d0, evs0)
          \<and> meter_power d0 = Some 5 \<and> lastFetchedHour d0 = Some 36000000"
    unfolding s0 by simp
  have h1: "lastFetchedHour meterDevice = Some 36000000" "(36000000 :: int) \<noteq> startOfHour 44100000"
    "hourlyStub (startOfHour (plusHours 1 36000000)) (startOfHour 44100000) = Inr ?inc"
    by (simp_all add: meterDevice_def startOfHour_def plusHours_def hourlyStub_def)
  have m: "meter_power meterDevice = Some 10" by (simp add: meterDevice_def)
  have s1: "fl (10 + sumKwh ?inc) = 11"
    unfolding sumKwh_def by code_simp
  have "\<exists>d1 evs1. updateTotalEnergyConsumption hourlyStub 44100000 meterDevice = (Returned, d1, evs1)
          \<and> meter_power d1
              = Some (fl ((case meter_power meterDevice of None \<Rightarrow> 0 | Some v \<Rightarrow> v) + sumKwh ?inc))
          \<and> lastFetchedHour d1 = Some (Consumption.date (last ?inc))"
    using meter_grows_by_fetched_deltas[where getEC=hourlyStub and d=meterDevice
        and now=44100000 and l=36000000 and inc="?inc", THEN conjunct2, THEN conjunct1] h1
    by blast
  then have w1: "\<exists>d1 evs1. updateTotalEnergyConsumption hourlyStub 44100000 meterDevice = (Returned, d1, evs1)
          \<and> meter_power d1 = Some 11 \<and> lastFetchedHour d1 = Some 39600000"
    unfolding m using s1 by simp
  have ten: "fl 10 = 10" by code_simp
  have nonneg: "\<forall>s e r. hourlyStub s e = Inr r \<longrightarrow> (\<forall>c \<in> set r. 0 \<le> kWh c)"
    by (auto simp add: hourlyStub_def)
  obtain c d' evs where run: "updateTotalEnergyConsumption hourlyStub 44100000 meterDevice = (c, d', evs)"
    by (cases "updateTotalEnergyConsumption hourlyStub 44100000 meterDevice")
  have "\<exists>cur'. meter_power d' = Some cur' \<and> 10 \<le> cur' \<and> fl cur' = cur'"
    using meter_grows_by_fetched_deltas[where getEC=hourlyStub and d=meterDevice
        and now=44100000 and cur=10 and c=c and d'=d' and evs=evs,
        THEN conjunct2, THEN conjunct2, THEN conjunct1] nonneg m ten run
    by blast
  then have w2: "\<exists>cur'. meter_power (fst (snd (updateTotalEnergyConsumption hourlyStub 44100000 meterDevice)))
                 = Some cur' \<and> 10 \<le> cur' \<and> fl cur' = cur'"
    unfolding run by simp
  obtain c2 d2 evs2 where run2: "updatePricingInformation (\<lambda>s e. Inr []) 44100000 meterDevice = (c2, d2, evs2)"
    by (cases "updatePricingInformation (\<lambda>s e. Inr []) 44100000 meterDevice")
  have "meter_power d2 = meter_power meterDevice"
    using meter_grows_by_fetched_deltas[where getPrices="\<lambda>s e. Inr []" and d=meterDevice
        and now=44100000 and c=c2 and d'=d2 and evs=evs2,
        THEN conjunct2, THEN conjunct2, THEN conjunct2] run2
    by blast
  then have w3: "meter_power (fst (snd (updatePricingInformation (\<lambda>s e. Inr []) 44100000 meterDevice))) = Some 10"
    unfolding run2 using m by simp
  show ?thesis using h0 w0 h1 w1 m ten w2 w3 by blast
qed

subsection \<open>Dispatch of the triggers\<close>

text \<open>
  C5. In a pricing update that finds the current price, the eight triggers with a dynamic
  window or a threshold (below and above average, at lowest and at highest over the next
  hours; below and above average today, among lowest, among highest) are dispatched always,
  in this order, with the filtering left to their run listeners. The price-at-lowest-today
  trigger is dispatched after them if and only if \<open>|current - lowest| < 0.001\<close>, and the
  price-at-highest-today trigger if and only if \<open>|current - highest| < 0.001\<close>, where lowest
  and highest are the minimum and the maximum net price of the day and the difference and
  the bound are the numbers the runtime computes.
\<close>

theorem updatePricingInformation_dispatch:
  assumes "getPrices (startOfDay now) (startOfDay (plusDays 1 now)) = Inr ps"
    and "find (\<lambda>p. Price.date p = startOfHour now) ps = Some current"
  shows "\<exists>d' evs.
           updatePricingInformation getPrices now d = (Returned, d', evs)
           \<and> triggers evs =
               [priceBelowAverageTrigger, priceAboveAverageTrigger,
                priceAtLowestTrigger, priceAtHighestTrigger,
                priceBelowAverageTodayTrigger, priceAboveAverageTodayTrigger,
                priceAmongLowestTrigger, priceAmongHighestTrigger]
               @ (if \<bar>fl (netPrice current - Min (set (map netPrice ps)))\<bar> < fl (1 / 1000)
                  then [priceAtLowestTodayTrigger] else [])
               @ (if \<bar>fl (netPrice current - Max (set (map netPrice ps)))\<bar> < fl (1 / 1000)
                  then [priceAtHighestTodayTrigger] else [])
           \<and> (priceAtLowestTodayTrigger \<in> set (triggers evs)
                \<longleftrightarrow> isPriceAtLowest (netPrice current) (Num (Min (set (map netPrice ps)))))
           \<and> (priceAtHighestTodayTrigger \<in> set (triggers evs)
                \<longleftrightarrow> isPriceAtHighest (netPrice current) (Num (Max (set (map netPrice ps)))))
           \<and> set [priceBelowAverageTrigger, priceAboveAverageTrigger,
                   priceAtLowestTrigger, priceAtHighestTrigger,
                   priceBelowAverageTodayTrigger, priceAboveAverageTodayTrigger,
                   priceAmongLowestTrigger, priceAmongHighestTrigger] \<subseteq> set (triggers evs)"
proof -
  obtain c d' evs where run: "updatePricingInformation getPrices now d = (c, d', evs)"
    by (cases "updatePricingInformation getPrices now d")
  have c: "c = Returned"
    and evs: "evs =
           [Call_getPrices (startOfDay now) (startOfDay (plusDays 1 now)),
            SetCapabilityValue CAPABILITY_PRICE_CURRENT (toFixed2 (Num (netPrice current))),
            SetCapabilityValue CAPABILITY_PRICE_HIGHEST (toFixed2 (Num (Max (set (map netPrice ps))))),
            SetCapabilityValue CAPABILITY_PRICE_LOWEST (toFixed2 (Num (Min (set (map netPrice ps))))),
            Triggered priceBelowAverageTrigger, Triggered priceAboveAverageTrigger,
            Triggered priceAtLowestTrigger, Triggered priceAtHighestTrigger,
            Triggered priceBelowAverageTodayTrigger, Triggered priceAboveAverageTodayTrigger,
            Triggered priceAmongLowestTrigger, Triggered priceAmongHighestTrigger]
           @ (if isPriceAtLowest (netPrice current) (Num (Min (set (map netPrice ps))))
              then [Triggered priceAtLowestTodayTrigger] else [])
           @ (if isPriceAtHighest (netPrice current) (Num (Max (set (map netPrice ps))))
              then [Triggered priceAtHighestTodayTrigger] else [])"
    using updatePricingInformation_current[where getPrices=getPrices and now=now and d=d, OF assms] run by simp_all
  show ?thesis
    unfolding run c evs
    by (intro exI conjI refl)
      (auto simp add: triggers_simps isPriceAtLowest_def isPriceAtHighest_def split: if_splits)
qed

theorem updatePricingInformation_dispatch_witness:
  "dayPricesStub (startOfDay 44100000) (startOfDay (plusDays 1 44100000)) = Inr dayPrices
   \<and> find (\<lambda>p. Price.date p = startOfHour 44100000) dayPrices
       = Some \<lparr>Price.date = 43200000, netPrice = 10\<rparr>
   \<and> triggers (snd (snd (updatePricingInformation dayPricesStub 44100000 meterDevice)))
       = [priceBelowAverageTrigger, priceAboveAverageTrigger,
          priceAtLowestTrigger, priceAtHighestTrigger,
          priceBelowAverageTodayTrigger, priceAboveAverageTodayTrigger,
          priceAmongLowestTrigger, priceAmongHighestTrigger, priceAtLowestTodayTrigger]
   \<and> find (\<lambda>p. Price.date p = startOfHour 40000000) dayPrices
       = Some \<lparr>Price.date = 39600000, netPrice = 20\<rparr>
   \<and> triggers (snd (snd (updatePricingInformation dayPricesStub 40000000 meterDevice)))
       = [priceBelowAverageTrigger, priceAboveAverageTrigger,
          priceAtLowestTrigger, priceAtHighestTrigger,
          priceBelowAverageTodayTrigger, priceAboveAverageTodayTrigger,
          priceAmongLowestTrigger, priceAmongHighestTrigger]"
proof -
  have got: "dayPricesStub (startOfDay t) (startOfDay (plusDays 1 t)) = Inr dayPrices" for t
    by (simp add: dayPricesStub_def)
  have c1: "find (\<lambda>p. Price.date p = startOfHour 44100000) dayPrices
       = Some \<lparr>Price.date = 43200000, netPrice = 10\<rparr>"
    by (simp add: dayPrices_def startOfHour_def)
  have c2: "find (\<lambda>p. Price.date p = startOfHour 40000000) dayPrices
       = Some \<lparr>Price.date = 39600000, netPrice = 20\<rparr>"
    by (simp add: dayPrices_def startOfHour_def)
  have mn: "Min (set (map netPrice dayPrices)) = 10" and mx: "Max (set (map netPrice dayPrices)) = 40"
    by (simp_all add: dayPrices_def)
  have eps: "\<bar>fl (10 - 10)\<bar> < fl (1 / 1000)" "\<not> \<bar>fl (10 - 40)\<bar> < fl (1 / 1000)"
    "\<not> \<bar>fl (20 - 10)\<bar> < fl (1 / 1000)" "\<not> \<bar>fl (20 - 40)\<bar> < fl (1 / 1000)"
    by code_simp+
  from updatePricingInformation_dispatch[where getPrices=dayPricesStub and now=44100000
         and d=meterDevice, OF got c1]
  obtain d1 evs1 where r1: "updatePricingInformation dayPricesStub 44100000 meterDevice = (Returned, d1, evs1)"
    and e1: "triggers evs1 =
               [priceBelowAverageTrigger, priceAboveAverageTrigger,
                priceAtLowestTrigger, priceAtHighestTrigger,
                priceBelowAverageTodayTrigger, priceAboveAverageTodayTrigger,
                priceAmongLowestTrigger, priceAmongHighestTrigger]
               @ (if \<bar>fl (netPrice \<lparr>Price.date = 43200000, netPrice = 10\<rparr>
                           - Min (set (map netPrice dayPrices)))\<bar> < fl (1 / 1000)
                  then [priceAtLowestTodayTrigger] else [])
               @ (if \<bar>fl (netPrice \<lparr>Price.date = 43200000, netPrice = 10\<rparr>
                           - Max (set (map netPrice dayPrices)))\<bar> < fl (1 / 1000)
                  then [priceAtHighestTodayTrigger] else [])"
    by blast
  have t1: "triggers (snd (snd (updatePricingInformation dayPricesStub 44100000 meterDevice)))
       = [priceBelowAverageTrigger, priceAboveAverageTrigger,
          priceAtLowestTrigger, priceAtHighestTrigger,
          priceBelowAverageTodayTrigger, priceAboveAverageTodayTrigger,
          priceAmongLowestTrigger, priceAmongHighestTrigger, priceAtLowestTodayTrigger]"
    unfolding r1 using e1 eps unfolding mn mx by simp
  from updatePricingInformation_dispatch[where getPrices=dayPricesStub and now=40000000
         and d=meterDevice, OF got c2]
  obtain d2 evs2 where r2: "updatePricingInformation dayPricesStub 40000000 meterDevice = (Returned, d2, evs2)"
    and e2: "triggers evs2 =
               [priceBelowAverageTrigger, priceAboveAverageTrigger,
                priceAtLowestTrigger, priceAtHighestTrigger,
                priceBelowAverageTodayTrigger, priceAboveAverageTodayTrigger,
                priceAmongLowestTrigger, priceAmongHighestTrigger]
               @ (if \<bar>fl (netPrice \<lparr>Price.date = 39600000, netPrice = 20\<rparr>
                           - Min (set (map netPrice dayPrices)))\<bar> < fl (1 / 1000)
                  then [priceAtLowestTodayTrigger] else [])
               @ (if \<bar>fl (netPrice \<lparr>Price.date = 39600000, netPrice = 20\<rparr>
                           - Max (set (map netPrice dayPrices)))\<bar> < fl (1 / 1000)
                  then [priceAtHighestTodayTrigger] else [])"
    by blast
  have t2: "triggers (snd (snd (updatePricingInformation dayPricesStub 40000000 meterDevice)))
       = [priceBelowAverageTrigger, priceAboveAverageTrigger,
          priceAtLowestTrigger, priceAtHighestTrigger,
          priceBelowAverageTodayTrigger, priceAboveAverageTodayTrigger,
          priceAmongLowestTrigger, priceAmongHighestTrigger]"
    unfolding r2 using e2 eps unfolding mn mx by simp
  show ?thesis using got c1 c2 t1 t2 by simp
qed

subsection \<open>A day without the current hour\<close>

text \<open>
  C6. When today's retrieved series is not empty and has no point whose timestamp is the
  current instant truncated to the hour, \<^verbatim>\<open>getPriceAtInstant\<close> returns \<^verbatim>\<open>undefined\<close>, not an
  error; the update logs an error and returns; it dispatches no trigger and sets no
  capability, so the three price capabilities (and the meter and the current price) are as
  before. The only thing it has changed is the series the device holds.
\<close>

theorem updatePricingInformation_without_current_price:
  assumes "getPrices (startOfDay now) (startOfDay (plusDays 1 now)) = Inr ps"
    and "ps \<noteq> []"
    and "\<forall>p \<in> set ps. Price.date p \<noteq> startOfHour now"
  shows "\<exists>P d' evs.
           new_Prices ps = Inr P \<and> getPriceAtInstant P now = None
           \<and> updatePricingInformation getPrices now d = (Returned, d', evs)
           \<and> evs = [Call_getPrices (startOfDay now) (startOfDay (plusDays 1 now)),
                     LoggedError ''Could not find price for current hour'']
           \<and> triggers evs = [] \<and> capabilitiesSet evs = []
           \<and> d' = d\<lparr>currentPrices := Some P\<rparr>
           \<and> measure_price_current d' = measure_price_current d
           \<and> measure_price_highest d' = measure_price_highest d
           \<and> measure_price_lowest d' = measure_price_lowest d
           \<and> meter_power d' = meter_power d
           \<and> currentPrice d' = currentPrice d"
proof -
  let ?P = "\<lparr>prices = ps, values_arr = map netPrice ps,
              cache_lowest = None, cache_highest = None, cache_average = None\<rparr>"
  have new: "new_Prices ps = Inr ?P" using assms(2) by (simp add: new_Prices_def)
  have "find (\<lambda>price. Price.date price = startOfHour now) ps = None"
    using assms(3) by (simp add: find_None_iff)
  then have at: "getPriceAtInstant ?P now = None"
    by (simp add: getPriceAtInstant_def)
  have run: "updatePricingInformation getPrices now d
               = (Returned, d\<lparr>currentPrices := Some ?P\<rparr>,
                  [Call_getPrices (startOfDay now) (startOfDay (plusDays 1 now)),
                   LoggedError ''Could not find price for current hour''])"
    unfolding updatePricingInformation_def Let_def
    using assms(2) by (simp add: assms(1) new at)
  show ?thesis
    unfolding run using new at
    by (intro exI[of _ ?P] exI[of _ "d\<lparr>currentPrices := Some ?P\<rparr>"]
          exI[of _ "[Call_getPrices (startOfDay now) (startOfDay (plusDays 1 now)),
                     LoggedError ''Could not find price for current hour'']"])
       (simp add: triggers_simps capabilitiesSet_simps)
qed

theorem updatePricingInformation_without_current_price_witness:
  "dayPricesStub (startOfDay 4000000) (startOfDay (plusDays 1 4000000)) = Inr dayPrices
   \<and> dayPrices \<noteq> []
   \<and> find (\<lambda>p. Price.date p = startOfHour 4000000) dayPrices = None
   \<and> (\<exists>P d' evs.
           new_Prices dayPrices = Inr P \<and> getPriceAtInstant P 4000000 = None
           \<and> updatePricingInformation dayPricesStub 4000000 meterDevice = (Returned, d', evs)
           \<and> evs = [Call_getPrices (startOfDay 4000000) (startOfDay (plusDays 1 4000000)),
                     LoggedError ''Could not find price for current hour'']
           \<and> triggers evs = [] \<and> capabilitiesSet evs = []
           \<and> d' = meterDevice\<lparr>currentPrices := Some P\<rparr>)"
proof -
  have got: "dayPricesStub (startOfDay 4000000) (startOfDay (plusDays 1 4000000)) = Inr dayPrices"
    by (simp add: dayPricesStub_def)
  have ne: "dayPrices \<noteq> []" by (simp add: dayPrices_def)
  have none: "\<forall>p \<in> set dayPrices. Price.date p \<noteq> startOfHour 4000000"
    by (simp add: dayPrices_def startOfHour_def)
  then have f: "find (\<lambda>p. Price.date p = startOfHour 4000000) dayPrices = None"
    by (simp add: find_None_iff)
  show ?thesis
    using got ne f updatePricingInformation_without_current_price[where getPrices=dayPricesStub and now=4000000 and d=meterDevice, OF got ne none]
    by blast
qed

end
